theory Spec2Isabelle
  imports Main "HOL-Library.Sublist" "HOL-Library.AList"
begin

section \<open>JavaScript values\<close>

text \<open>
  The values that travel through \<^verbatim>\<open>lib/leadfoot/Server.js\<close>: decoded JSON bodies, the
  values the session's commands resolve to, and the capability values. Numbers are
  integers (status codes, counters, pixel sizes). \<open>JElem\<close> is an element handle (an object
  with the element methods). An object is the list of its own properties in insertion
  order.
\<close>

datatype jsval =
    JUndefined
  | JNull
  | JBool bool
  | JNum int
  | JStr string
  | JArr "jsval list"
  | JObj "(string \<times> jsval) list"
  | JElem string

text \<open>ToBoolean: what \<^verbatim>\<open>if (v)\<close>, \<^verbatim>\<open>!v\<close> and \<^verbatim>\<open>v && ...\<close> test.\<close>

fun truthy :: "jsval \<Rightarrow> bool" where
  "truthy JUndefined = False"
| "truthy JNull = False"
| "truthy (JBool b) = b"
| "truthy (JNum n) = (n \<noteq> 0)"
| "truthy (JStr s) = (s \<noteq> [])"
| "truthy (JArr xs) = True"
| "truthy (JObj kvs) = True"
| "truthy (JElem e) = True"

text \<open>
  \<^verbatim>\<open>v.name\<close> for the property names the code reads on a value that is neither
  \<^verbatim>\<open>null\<close> nor \<^verbatim>\<open>undefined\<close> (\<^verbatim>\<open>status\<close>, \<^verbatim>\<open>value\<close>, \<^verbatim>\<open>message\<close>,
  \<^verbatim>\<open>class\<close>, \<^verbatim>\<open>screen\<close>, \<^verbatim>\<open>width\<close>, ...): only an object has them.
\<close>

fun getProp :: "jsval \<Rightarrow> string \<Rightarrow> jsval" where
  "getProp (JObj kvs) name = (case map_of kvs name of Some v \<Rightarrow> v | None \<Rightarrow> JUndefined)"
| "getProp v name = JUndefined"

text \<open>\<^verbatim>\<open>o.name = v\<close> on an object: overwrite in place, or add the key at the end.\<close>

fun setProp :: "jsval \<Rightarrow> string \<Rightarrow> jsval \<Rightarrow> jsval" where
  "setProp (JObj kvs) name v = JObj (AList.update name v kvs)"
| "setProp d name v = d"

text \<open>\<^verbatim>\<open>text.indexOf(pat) > -1\<close> on strings.\<close>

fun containsText :: "string \<Rightarrow> string \<Rightarrow> bool" where
  "containsText [] pat = (pat = [])"
| "containsText (c # cs) pat = (prefix pat (c # cs) \<or> containsText cs pat)"

section \<open>Transport: building the request URL\<close>

text \<open>
  \<^verbatim>\<open>encodeURIComponent\<close> on a string given as its UTF-8 bytes: the unreserved characters
  \<^verbatim>\<open>A-Z a-z 0-9 - _ . ! ~ * ' ( )\<close> stay, every other byte becomes \<^verbatim>\<open>%XX\<close>.
\<close>

definition unreserved :: "char \<Rightarrow> bool" where
  "unreserved c \<longleftrightarrow>
     c \<in> set ''ABCDEFGHIJKLMNOPQRSTUVWXYZabcdefghijklmnopqrstuvwxyz0123456789-_.!~*()''
     \<or> c = CHR 0x27"

definition hexDigit :: "nat \<Rightarrow> char" where
  "hexDigit n = ''0123456789ABCDEF'' ! (n mod 16)"

definition encodeChar :: "char \<Rightarrow> string" where
  "encodeChar c =
     (if unreserved c then [c]
      else [CHR ''%'', hexDigit (of_char c div 16), hexDigit (of_char c mod 16)])"

definition encodeURIComponent :: "string \<Rightarrow> string" where
  "encodeURIComponent s = concat (map encodeChar s)"

definition isDigit :: "char \<Rightarrow> bool" where
  "isDigit c \<longleftrightarrow> c \<in> set ''0123456789''"

definition digitValue :: "char \<Rightarrow> nat" where
  "digitValue c = of_char c - 48"

text \<open>
  The raw response of the network layer, as \<^verbatim>\<open>handleResponse\<close> reads it:
  \<^verbatim>\<open>response.status\<close>, \<^verbatim>\<open>response.getHeader(name)\<close> (\<open>None\<close> for a header that is
  not there), \<^verbatim>\<open>response.text\<close>, and \<open>jsonOfText\<close>, the outcome of
  \<^verbatim>\<open>JSON.parse(response.text)\<close>: \<open>None\<close> when it throws a SyntaxError.
\<close>

record response =
  status :: nat
  getHeader :: "string \<Rightarrow> string option"
  responseText :: string
  jsonOfText :: "jsval option"

text \<open>\<^verbatim>\<open>error.request = { url, method, data }\<close> (lines 139 to 143).\<close>

record request_info =
  reqUrl :: string
  reqMethod :: string
  reqData :: jsval

text \<open>
  The error thrown at line 151. \<open>errorMessage\<close> is \<^verbatim>\<open>error.message\<close> before line 147
  puts \<^verbatim>\<open>'[' + method + ' ' + url + ' / ' + JSON.stringify(requestData) + '] '\<close> in front
  of it; that prefix is a function of \<open>errorRequest\<close>. \<open>errorDetail\<close> is
  \<^verbatim>\<open>data.value\<close> as the response gave it; when \<open>errorScreen\<close> is \<open>Some v\<close>, line 134
  has put \<^verbatim>\<open>new Buffer(v, 'base64')\<close> in the place of its \<^verbatim>\<open>screen\<close>.
\<close>

record protocol_error =
  errorName :: string
  errorMessage :: jsval
  errorStatus :: jsval
  errorDetail :: jsval
  errorScreen :: "jsval option"
  errorRequest :: request_info
  errorResponse :: response

text \<open>What a request can be rejected with.\<close>

datatype failure =
    TypeError
  | SyntaxError
  | NetworkError
  | ProtocolError protocol_error

text \<open>A promise, once the run is over: resolved, rejected, or still pending.\<close>

datatype ('e, 'a) settled = Resolved 'a | Rejected 'e | Pending

text \<open>
  \<^verbatim>\<open>pathParts[index]\<close> passed to \<^verbatim>\<open>encodeURIComponent\<close>: reading an index of
  \<^verbatim>\<open>undefined\<close> (no \<^verbatim>\<open>pathParts\<close> argument) is a TypeError, an index beyond the
  array reads \<^verbatim>\<open>undefined\<close>, which encodes as the text \<^verbatim>\<open>undefined\<close>.
\<close>

definition encodedPart :: "string list option \<Rightarrow> nat \<Rightarrow> failure + string" where
  "encodedPart pathParts index =
     (case pathParts of
        None \<Rightarrow> Inl TypeError
      | Some parts \<Rightarrow>
          Inr (if index < length parts then encodeURIComponent (parts ! index)
               else ''undefined''))"

text \<open>
  \<^verbatim>\<open>path.replace(/\$(\d)/, function (_, index) { ... })\<close> (line 13): the pattern has no
  \<^verbatim>\<open>g\<close> flag, so the callback runs for the leftmost \<^verbatim>\<open>$\<close> followed by one digit, and
  the rest of the path is copied as it is.
\<close>

fun replacePlaceholder :: "string \<Rightarrow> string list option \<Rightarrow> failure + string" where
  "replacePlaceholder (c # d # rest) pathParts =
     (if c = CHR ''$'' \<and> isDigit d then
        (case encodedPart pathParts (digitValue d) of
           Inl e \<Rightarrow> Inl e
         | Inr part \<Rightarrow> Inr (part @ rest))
      else
        (case replacePlaceholder (d # rest) pathParts of
           Inl e \<Rightarrow> Inl e
         | Inr t \<Rightarrow> Inr (c # t)))"
| "replacePlaceholder path pathParts = Inr path"

text \<open>Line 13: \<^verbatim>\<open>var url = this.url + path.replace(...)\<close>.\<close>

definition requestUrl :: "string \<Rightarrow> string \<Rightarrow> string list option \<Rightarrow> failure + string" where
  "requestUrl serverUrl path pathParts =
     (case replacePlaceholder path pathParts of
        Inl e \<Rightarrow> Inl e
      | Inr p \<Rightarrow> Inr (serverUrl @ p))"

section \<open>Transport: conversions of the language\<close>

text \<open>
  ToString of a value that is not a primitive asks the value for \<^verbatim>\<open>toString\<close>. An
  object of a decoded body inherits one that answers \<^verbatim>\<open>[object Object]\<close>, unless the
  body gave it a property of that name: no value of a body is a function, so the
  conversion then throws a TypeError (the inherited \<^verbatim>\<open>valueOf\<close> answers the object
  itself, which is no primitive). An array joins the texts of its elements.
\<close>

fun stringifies :: "jsval \<Rightarrow> bool" where
  "stringifies (JObj kvs) = (''toString'' \<notin> fst ` set kvs)"
| "stringifies (JArr xs) = (\<forall>x \<in> set xs. stringifies x)"
| "stringifies v = True"

fun showNat :: "nat \<Rightarrow> string" where
  "showNat n =
     (if n < 10 then [''0123456789'' ! n] else showNat (n div 10) @ [''0123456789'' ! (n mod 10)])"

definition showInt :: "int \<Rightarrow> string" where
  "showInt i = (if i < 0 then CHR ''-'' # showNat (nat (- i)) else showNat (nat i))"

fun joinWith :: "string \<Rightarrow> string list \<Rightarrow> string" where
  "joinWith sep [] = []"
| "joinWith sep [t] = t"
| "joinWith sep (t # u # rest) = t @ sep @ joinWith sep (u # rest)"

text \<open>
  ToString of a value for which \<open>stringifies\<close> holds (an integer of fewer than 22 digits
  is written without an exponent). \<^verbatim>\<open>Array.prototype.join\<close> writes nothing for
  \<^verbatim>\<open>null\<close> and \<^verbatim>\<open>undefined\<close>.
\<close>

fun textOf :: "jsval \<Rightarrow> string" where
  "textOf JUndefined = ''undefined''"
| "textOf JNull = ''null''"
| "textOf (JBool b) = (if b then ''true'' else ''false'')"
| "textOf (JNum n) = showInt n"
| "textOf (JStr t) = t"
| "textOf (JArr xs) =
     joinWith '','' (map (\<lambda>x. if x = JNull \<or> x = JUndefined then [] else textOf x) xs)"
| "textOf (JObj kvs) = ''[object Object]''"
| "textOf (JElem e) = ''[object Object]''"

text \<open>
  The white space that ToNumber strips from both ends of a text, as UTF-8: tab, line
  feed, vertical tab, form feed, carriage return, space, U+00A0, U+1680, U+2000 to
  U+200A, U+2028, U+2029, U+202F, U+205F, U+3000 and U+FEFF.
\<close>

definition whiteSpace :: "string list" where
  "whiteSpace =
     [ [CHR 0x09], [CHR 0x0A], [CHR 0x0B], [CHR 0x0C], [CHR 0x0D], [CHR 0x20],
      [CHR 0xC2, CHR 0xA0], [CHR 0xE1, CHR 0x9A, CHR 0x80],
      [CHR 0xE2, CHR 0x80, CHR 0x80], [CHR 0xE2, CHR 0x80, CHR 0x81],
      [CHR 0xE2, CHR 0x80, CHR 0x82], [CHR 0xE2, CHR 0x80, CHR 0x83],
      [CHR 0xE2, CHR 0x80, CHR 0x84], [CHR 0xE2, CHR 0x80, CHR 0x85],
      [CHR 0xE2, CHR 0x80, CHR 0x86], [CHR 0xE2, CHR 0x80, CHR 0x87],
      [CHR 0xE2, CHR 0x80, CHR 0x88], [CHR 0xE2, CHR 0x80, CHR 0x89],
      [CHR 0xE2, CHR 0x80, CHR 0x8A], [CHR 0xE2, CHR 0x80, CHR 0xA8],
      [CHR 0xE2, CHR 0x80, CHR 0xA9], [CHR 0xE2, CHR 0x80, CHR 0xAF],
      [CHR 0xE2, CHR 0x81, CHR 0x9F], [CHR 0xE3, CHR 0x80, CHR 0x80],
      [CHR 0xEF, CHR 0xBB, CHR 0xBF] ]"

function dropLeading :: "string list \<Rightarrow> string \<Rightarrow> string" where
  "dropLeading ws t =
     (case find (\<lambda>w. w \<noteq> [] \<and> prefix w t) ws of
        Some w \<Rightarrow> dropLeading ws (drop (length w) t)
      | None \<Rightarrow> t)"
  by pat_completeness auto
termination
proof (relation "measure (\<lambda>p. length (snd p))")
  show "wf (measure (\<lambda>p. length (snd p)))" by simp
next
  fix ws :: "string list" and t w :: string
  assume "find (\<lambda>w. w \<noteq> [] \<and> prefix w t) ws = Some w"
  then have "w \<noteq> []" and "prefix w t" by (auto simp: find_Some_iff)
  then have "length (drop (length w) t) < length t" by (cases t) (auto simp: prefix_def)
  then show "((ws, drop (length w) t), (ws, t)) \<in> measure (\<lambda>p. length (snd p))" by simp
qed

declare dropLeading.simps [simp del]

definition trimText :: "string \<Rightarrow> string" where
  "trimText t = rev (dropLeading (map rev whiteSpace) (rev (dropLeading whiteSpace t)))"

text \<open>
  Whether a text of digits in a base other than ten (\<^verbatim>\<open>0x\<close>, \<^verbatim>\<open>0o\<close>, \<^verbatim>\<open>0b\<close>) is a
  number greater than 0: it needs a digit, only digits, and one that is not 0.
\<close>

definition radixPositive :: "string \<Rightarrow> string \<Rightarrow> bool" where
  "radixPositive digits t \<longleftrightarrow>
     t \<noteq> [] \<and> (\<forall>c \<in> set t. c \<in> set digits) \<and> (\<exists>c \<in> set t. c \<noteq> CHR ''0'')"

definition intOfDigits :: "string \<Rightarrow> int" where
  "intOfDigits t = foldl (\<lambda>n c. 10 * n + int (digitValue c)) 0 t"

text \<open>
  The exponent part of a decimal text: nothing (the exponent is 0), or \<^verbatim>\<open>e\<close> or \<^verbatim>\<open>E\<close>,
  an optional sign, and at least one digit.
\<close>

definition signedDigits :: "string \<Rightarrow> int option" where
  "signedDigits t =
     (case t of
        [] \<Rightarrow> None
      | c # rest \<Rightarrow>
          if c = CHR ''+'' \<or> c = CHR ''-'' then
            (if rest \<noteq> [] \<and> (\<forall>d \<in> set rest. isDigit d)
             then Some (if c = CHR ''-'' then - intOfDigits rest else intOfDigits rest)
             else None)
          else if \<forall>d \<in> set t. isDigit d then Some (intOfDigits t) else None)"

definition exponentPart :: "string \<Rightarrow> int option" where
  "exponentPart t =
     (case t of
        [] \<Rightarrow> Some 0
      | c # rest \<Rightarrow> if c = CHR ''e'' \<or> c = CHR ''E'' then signedDigits rest else None)"

text \<open>
  Whether the number nearest to \<open>m\<close> times 10 to the power \<open>k\<close> is greater than 0: the
  smallest number above 0 is 2 to the power -1074, and everything up to half of it is
  rounded to 0.
\<close>

definition decimalPositive :: "int \<Rightarrow> int \<Rightarrow> bool" where
  "decimalPositive m k \<longleftrightarrow>
     (if 0 \<le> k then 0 < m else 10 ^ nat (- k) < m * 2 ^ 1075)"

text \<open>
  A decimal text without sign: \<^verbatim>\<open>Infinity\<close>, or digits, a point and digits with a digit
  on at least one side of the point, or digits; then the exponent part.
\<close>

definition unsignedPositive :: "string \<Rightarrow> bool" where
  "unsignedPositive t \<longleftrightarrow>
     t = ''Infinity'' \<or>
     (let whole = takeWhile isDigit t;
          afterWhole = dropWhile isDigit t;
          point = (afterWhole \<noteq> [] \<and> hd afterWhole = CHR ''.'');
          fraction = (if point then takeWhile isDigit (tl afterWhole) else []);
          afterFraction = (if point then dropWhile isDigit (tl afterWhole) else afterWhole)
      in (whole \<noteq> [] \<or> fraction \<noteq> []) \<and>
         (case exponentPart afterFraction of
            None \<Rightarrow> False
          | Some e \<Rightarrow> decimalPositive (intOfDigits (whole @ fraction)) (e - int (length fraction))))"

text \<open>
  ToNumber of a text, compared with 0: white space at both ends does not count, an empty
  rest is 0, a rest that is no numeric literal is NaN, and one with the sign \<^verbatim>\<open>-\<close> is
  NaN or at most 0. The literals are those of ECMAScript 2015 and later: decimal with an
  optional sign, and hexadecimal, octal and binary without.
\<close>

definition positiveText :: "string \<Rightarrow> bool" where
  "positiveText t \<longleftrightarrow>
     (let u = trimText t in
      if prefix ''0x'' u \<or> prefix ''0X'' u then radixPositive ''0123456789abcdefABCDEF'' (drop 2 u)
      else if prefix ''0o'' u \<or> prefix ''0O'' u then radixPositive ''01234567'' (drop 2 u)
      else if prefix ''0b'' u \<or> prefix ''0B'' u then radixPositive ''01'' (drop 2 u)
      else
        (case u of
           [] \<Rightarrow> False
         | c # rest \<Rightarrow>
             if c = CHR ''-'' then False
             else if c = CHR ''+'' then unsignedPositive rest
             else unsignedPositive u))"

text \<open>
  \<^verbatim>\<open>v > 0\<close>: \<open>v\<close> is converted to a number. \<^verbatim>\<open>null\<close> is 0 and \<^verbatim>\<open>undefined\<close> is NaN,
  \<^verbatim>\<open>true\<close> is 1; a text is read as a number; an array or an object is first converted
  to its text, which throws a TypeError when \<open>stringifies\<close> does not hold.
\<close>

fun positive :: "jsval \<Rightarrow> failure + bool" where
  "positive (JNum n) = Inr (0 < n)"
| "positive (JBool b) = Inr b"
| "positive JNull = Inr False"
| "positive JUndefined = Inr False"
| "positive (JStr t) = Inr (positiveText t)"
| "positive v = (if stringifies v then Inr (positiveText (textOf v)) else Inl TypeError)"

text \<open>
  Whether \<^verbatim>\<open>new Buffer(v, 'base64')\<close> returns a buffer; otherwise it throws a TypeError.
  A text is decoded and an array is copied. A number or a boolean is refused, as Node
  does from version 10 on (the second argument is a text). An object goes through
  \<^verbatim>\<open>Buffer.from\<close>, which calls a \<^verbatim>\<open>valueOf\<close> that is truthy (in a decoded body that
  is no function, so the call throws), takes an empty text as \<^verbatim>\<open>valueOf\<close> for the text
  to decode, and otherwise accepts the object when its \<^verbatim>\<open>length\<close> is not
  \<^verbatim>\<open>undefined\<close>, or when its \<^verbatim>\<open>type\<close> is \<^verbatim>\<open>Buffer\<close> and its \<^verbatim>\<open>data\<close> an array.
  Memory is taken to suffice for the buffer.
\<close>

fun bufferable :: "jsval \<Rightarrow> bool" where
  "bufferable (JStr t) = True"
| "bufferable (JArr xs) = True"
| "bufferable (JObj kvs) =
     (let arrayLike = (getProp (JObj kvs) ''length'' \<noteq> JUndefined \<or>
            (getProp (JObj kvs) ''type'' = JStr ''Buffer'' \<and>
             (case getProp (JObj kvs) ''data'' of JArr xs \<Rightarrow> True | _ \<Rightarrow> False)))
      in case map_of kvs ''valueOf'' of
           None \<Rightarrow> arrayLike
         | Some w \<Rightarrow> \<not> truthy w \<and> (w = JStr [] \<or> arrayLike))"
| "bufferable v = False"

section \<open>Transport: interpreting the response\<close>

text \<open>\<^verbatim>\<open>'name' in v\<close>: a TypeError on a primitive.\<close>

fun hasProperty :: "string \<Rightarrow> jsval \<Rightarrow> failure + bool" where
  "hasProperty name (JObj kvs) = Inr (name \<in> fst ` set kvs)"
| "hasProperty name (JArr xs) = Inr False"
| "hasProperty name (JElem e) = Inr False"
| "hasProperty name v = Inl TypeError"

text \<open>
  \<^verbatim>\<open>v.indexOf(pat) > -1\<close>: strings search for a substring, arrays for an element that
  is the string \<^verbatim>\<open>pat\<close>; any other value has no \<^verbatim>\<open>indexOf\<close> to call.
\<close>

fun indexOfFound :: "jsval \<Rightarrow> string \<Rightarrow> failure + bool" where
  "indexOfFound (JStr t) pat = Inr (containsText t pat)"
| "indexOfFound (JArr xs) pat = Inr (JStr pat \<in> set xs)"
| "indexOfFound v pat = Inl TypeError"

text \<open>
  The status table of \<^verbatim>\<open>./statusCodes\<close> is not part of this file; it is a parameter:
  \<^verbatim>\<open>statusCodes[data.status]\<close> as the pair (name, message), \<open>None\<close> when the table has
  no such entry.
\<close>

type_synonym status_table = "jsval \<Rightarrow> (string \<times> string) option"

text \<open>Line 41: the location to follow, when the response is a redirect that names one.\<close>

definition redirectTarget :: "response \<Rightarrow> string option" where
  "redirectTarget r =
     (if 300 \<le> status r \<and> status r < 400 then
        (case getHeader r ''Location'' of
           Some loc \<Rightarrow> if loc \<noteq> [] then Some loc else None
         | None \<Rightarrow> None)
      else None)"

text \<open>Lines 47 to 52: \<^verbatim>\<open>data\<close> after the optional \<^verbatim>\<open>JSON.parse\<close>.\<close>

definition parseBody :: "response \<Rightarrow> failure + jsval" where
  "parseBody r =
     (case getHeader r ''Content-Type'' of
        None \<Rightarrow> Inr JUndefined
      | Some responseType \<Rightarrow>
          if responseType \<noteq> [] \<and> prefix ''application/json'' responseType \<and> responseText r \<noteq> []
          then (case jsonOfText r of None \<Rightarrow> Inl SyntaxError | Some d \<Rightarrow> Inr d)
          else Inr JUndefined)"

text \<open>Line 65: \<^verbatim>\<open>response.status >= 400 || (data && data.status > 0)\<close>.\<close>

definition isFailure :: "response \<Rightarrow> jsval \<Rightarrow> failure + bool" where
  "isFailure r d =
     (if 400 \<le> status r then Inr True
      else if \<not> truthy d then Inr False
      else positive (getProp d ''status''))"

text \<open>Lines 72 to 88: the envelope made up for a body that has none.\<close>

definition unknownStatus :: "response \<Rightarrow> int" where
  "unknownStatus r = (if status r = 404 \<or> status r = 501 then 9 else 13)"

definition failureData :: "response \<Rightarrow> jsval \<Rightarrow> failure + jsval" where
  "failureData r d =
     (if \<not> truthy d then
        Inr (JObj [(''status'', JNum (unknownStatus r)),
                   (''value'', JObj [(''message'', JStr (responseText r))])])
      else if \<not> truthy (getProp d ''value'') then
        (case hasProperty ''message'' d of
           Inl e \<Rightarrow> Inl e
         | Inr False \<Rightarrow> Inr d
         | Inr True \<Rightarrow>
             if status r = 404 \<or> status r = 501 then
               Inr (JObj [(''status'', JNum 9), (''value'', d)])
             else
               (case indexOfFound (getProp d ''message'') ''cannot find command'' of
                  Inl e \<Rightarrow> Inl e
                | Inr found \<Rightarrow>
                    Inr (JObj [(''status'', JNum (if found then 9 else 13)), (''value'', d)])))
      else Inr d)"

text \<open>Lines 94 to 96.\<close>

definition coerceNotImplemented :: "response \<Rightarrow> jsval \<Rightarrow> jsval" where
  "coerceNotImplemented r d =
     (if status r = 501 \<and> getProp d ''status'' = JNum 13
      then setProp d ''status'' (JNum 9) else d)"

text \<open>Lines 102 to 107.\<close>

definition coerceUnsupportedClass :: "jsval \<Rightarrow> failure + jsval" where
  "coerceUnsupportedClass d =
     (let v = getProp d ''value''; c = getProp v ''class'' in
      if getProp d ''status'' = JNum 13 \<and> truthy v \<and> truthy c then
        (case indexOfFound c ''UnsupportedOperationException'' of
           Inl e \<Rightarrow> Inl e
         | Inr True \<Rightarrow> Inr (setProp d ''status'' (JNum 9))
         | Inr False \<Rightarrow>
             (case indexOfFound c ''UnsupportedCommandException'' of
                Inl e \<Rightarrow> Inl e
              | Inr found \<Rightarrow> Inr (if found then setProp d ''status'' (JNum 9) else d)))
      else Inr d)"

text \<open>Lines 112 to 119.\<close>

definition coerceCommandNotFound :: "response \<Rightarrow> jsval \<Rightarrow> failure + jsval" where
  "coerceCommandNotFound r d =
     (let v = getProp d ''value''; m = getProp v ''message'' in
      if status r = 500 \<and> truthy v then
        (case indexOfFound m ''Command not found'' of
           Inl e \<Rightarrow> Inl e
         | Inr True \<Rightarrow> Inr (setProp d ''status'' (JNum 9))
         | Inr False \<Rightarrow>
             (case indexOfFound m ''Unknown command'' of
                Inl e \<Rightarrow> Inl e
              | Inr found \<Rightarrow> Inr (if found then setProp d ''status'' (JNum 9) else d)))
      else Inr d)"

text \<open>
  Lines 123 to 151: the error object, from the envelope after the coercions. Three steps
  can throw instead: \<^verbatim>\<open>statusCodes[data.status]\<close> converts the status to a property
  name (line 123), \<^verbatim>\<open>new Buffer\<close> refuses a \<^verbatim>\<open>screen\<close> (line 134), and line 147
  converts \<^verbatim>\<open>error.message\<close> to a text.
\<close>

definition buildError ::
  "status_table \<Rightarrow> request_info \<Rightarrow> response \<Rightarrow> jsval \<Rightarrow> failure + protocol_error" where
  "buildError statusCodes req r d =
     (let statusText = statusCodes (getProp d ''status'');
          v = getProp d ''value'';
          m = getProp v ''message'';
          screen = getProp v ''screen'';
          message =
            (if truthy v \<and> truthy m then m
             else (case statusText of Some (n, t) \<Rightarrow> JStr t | None \<Rightarrow> JStr []))
      in if \<not> stringifies (getProp d ''status'') then Inl TypeError
         else if truthy v \<and> truthy screen \<and> \<not> bufferable screen then Inl TypeError
         else if \<not> stringifies message then Inl TypeError
         else
           Inr \<lparr> errorName = (case statusText of Some (n, t) \<Rightarrow> n | None \<Rightarrow> ''Error''),
                 errorMessage = message,
                 errorStatus = getProp d ''status'',
                 errorDetail = v,
                 errorScreen = (if truthy v \<and> truthy screen then Some screen else None),
                 errorRequest = req,
                 errorResponse = r \<rparr>)"

text \<open>Lines 47 to 154: \<^verbatim>\<open>handleResponse\<close> on a response that is not followed further.\<close>

definition normalizeResponse ::
  "status_table \<Rightarrow> request_info \<Rightarrow> response \<Rightarrow> (failure, jsval) settled" where
  "normalizeResponse statusCodes req r =
     (case parseBody r of
        Inl e \<Rightarrow> Rejected e
      | Inr d \<Rightarrow>
          if status r = 204 then
            Resolved (JObj [(''status'', JNum 0), (''sessionId'', JNull), (''value'', JNull)])
          else
            (case isFailure r d of
               Inl e \<Rightarrow> Rejected e
             | Inr False \<Rightarrow> Resolved d
             | Inr True \<Rightarrow>
                 (case failureData r d of
                    Inl e \<Rightarrow> Rejected e
                  | Inr d1 \<Rightarrow>
                      (case coerceUnsupportedClass (coerceNotImplemented r d1) of
                         Inl e \<Rightarrow> Rejected e
                       | Inr d2 \<Rightarrow>
                           (case coerceCommandNotFound r d2 of
                              Inl e \<Rightarrow> Rejected e
                            | Inr d3 \<Rightarrow>
                                (case buildError statusCodes req r d3 of
                                   Inl e \<Rightarrow> Rejected e
                                 | Inr err \<Rightarrow> Rejected (ProtocolError err)))))))"

text \<open>
  What the network answers to the follow-up requests, in the order they are issued:
  a response, or no response at all (the request itself fails). When the list is used
  up, the next request is never answered.
\<close>

datatype reply = Reply response | NoReply

text \<open>
  \<^verbatim>\<open>handleResponse\<close> (lines 36 to 155) with the redirect of lines 41 to 45. The result
  comes with the locations of the GET requests issued on the way. A follow-up request
  that fails hands its error object to \<^verbatim>\<open>handleResponse\<close> through \<^verbatim>\<open>always\<close>; an
  error object has no \<^verbatim>\<open>getHeader\<close>, so line 47 throws a TypeError.
\<close>

fun handleResponse ::
  "status_table \<Rightarrow> request_info \<Rightarrow> reply list \<Rightarrow> response \<Rightarrow> (failure, jsval) settled \<times> string list" where
  "handleResponse statusCodes req [] r =
     (case redirectTarget r of
        Some loc \<Rightarrow> (Pending, [loc])
      | None \<Rightarrow> (normalizeResponse statusCodes req r, []))"
| "handleResponse statusCodes req (x # network) r =
     (case redirectTarget r of
        Some loc \<Rightarrow>
          (case x of
             NoReply \<Rightarrow> (Rejected TypeError, [loc])
           | Reply r' \<Rightarrow>
               (case handleResponse statusCodes req network r' of
                  (result, gets) \<Rightarrow> (result, loc # gets)))
      | None \<Rightarrow> (normalizeResponse statusCodes req r, []))"

text \<open>
  The function \<^verbatim>\<open>createHttpRequest(method)\<close> returns (lines 12 to 156): the URL, the
  request, and \<^verbatim>\<open>handleResponse\<close> on its response. The result comes with the requests
  issued, as (method, URL). The headers of lines 17 to 34 do not influence the result.
\<close>

definition createHttpRequest ::
  "status_table \<Rightarrow> string \<Rightarrow> string \<Rightarrow> string \<Rightarrow> jsval \<Rightarrow> string list option \<Rightarrow> reply list
     \<Rightarrow> (failure, jsval) settled \<times> (string \<times> string) list" where
  "createHttpRequest statusCodes method serverUrl path requestData pathParts network =
     (case requestUrl serverUrl path pathParts of
        Inl e \<Rightarrow> (Rejected e, [])
      | Inr url \<Rightarrow>
          (case network of
             [] \<Rightarrow> (Pending, [(method, url)])
           | NoReply # rest \<Rightarrow> (Rejected NetworkError, [(method, url)])
           | Reply r # rest \<Rightarrow>
               (case handleResponse statusCodes
                       \<lparr> reqUrl = url, reqMethod = method, reqData = requestData \<rparr> rest r of
                  (result, gets) \<Rightarrow> (result, (method, url) # map (Pair ''GET'') gets))))"

section \<open>Capability negotiation: session, commands and promises\<close>

text \<open>
  The error a command of the session is rejected with, as far as the probes look at it:
  \<^verbatim>\<open>error.name\<close>, \<^verbatim>\<open>error.message\<close> and \<^verbatim>\<open>error.response.text\<close> (\<open>None\<close> when
  the error carries no response, so that reading its text throws).
\<close>

record session_error =
  errName :: string
  errMessage :: string
  errResponseText :: "string option"

text \<open>The TypeError a callback throws when it reads a property of a value that has none.\<close>

definition thrownTypeError :: session_error where
  "thrownTypeError =
     \<lparr> errName = ''TypeError'', errMessage = ''Cannot read property'', errResponseText = None \<rparr>"

text \<open>What an observer of one negotiation sees, in this order.\<close>

datatype event =
    ImmediateStarted string
  | ImmediateSettled string
  | DeferredStarted string
  | DeferredSettled string
  | Written string jsval

text \<open>
  The session object and its surroundings. \<open>capabilities\<close> is
  \<^verbatim>\<open>session.capabilities\<close>. \<open>replies\<close> is what the remote end answers to the commands
  of the session, in the order in which the run below issues them (a \<open>Pending\<close> entry
  is a command that is never answered, and so is every command issued after the list is
  used up). \<open>arrival\<close> is the order in which the promises that are in flight at the
  same time settle. \<open>commands\<close> and \<open>events\<close> record what was done.
\<close>

record session_state =
  sessionId :: string
  capabilities :: "(string \<times> jsval) list"
  replies :: "(session_error, jsval) settled list"
  arrival :: "string list"
  commands :: "(string \<times> jsval list) list"
  events :: "event list"

type_synonym 'a promise = "session_state \<Rightarrow> (session_error, 'a) settled \<times> session_state"

definition capability :: "session_state \<Rightarrow> string \<Rightarrow> jsval" where
  "capability s name = getProp (JObj (capabilities s)) name"

text \<open>\<^verbatim>\<open>'name' in capabilities\<close>.\<close>

definition hasCapability :: "session_state \<Rightarrow> string \<Rightarrow> bool" where
  "hasCapability s name \<longleftrightarrow> name \<in> fst ` set (capabilities s)"

text \<open>\<^verbatim>\<open>capabilities[key] = value\<close> (lines 221 and 226).\<close>

definition writeCapability :: "string \<Rightarrow> jsval \<Rightarrow> session_state \<Rightarrow> session_state" where
  "writeCapability key v s =
     s\<lparr> capabilities := AList.update key v (capabilities s),
        events := events s @ [Written key v] \<rparr>"

definition logEvent :: "event \<Rightarrow> session_state \<Rightarrow> session_state" where
  "logEvent ev s = s\<lparr> events := events s @ [ev] \<rparr>"

text \<open>
  Modelled from the spec: the session handle (\<^verbatim>\<open>./Session\<close> is not among the sources). A
  command of the session, or of an element, returns a pending result that resolves to a
  value or fails with an error. Here it is logged and takes the next reply of the
  server; with no reply left it is never answered.
\<close>

definition command :: "string \<Rightarrow> jsval list \<Rightarrow> jsval promise" where
  "command name args s =
     (case replies s of
        [] \<Rightarrow> (Pending, s\<lparr> commands := commands s @ [(name, args)] \<rparr>)
      | r # rest \<Rightarrow> (r, s\<lparr> replies := rest, commands := commands s @ [(name, args)] \<rparr>))"

definition resolved :: "'a \<Rightarrow> 'a promise" where
  "resolved v s = (Resolved v, s)"

definition rejected :: "session_error \<Rightarrow> 'a promise" where
  "rejected e s = (Rejected e, s)"

text \<open>
  Modelled from the spec: the delay primitive \<^verbatim>\<open>util.sleep\<close> (\<^verbatim>\<open>./util\<close> is not among the
  sources). It resolves after the delay and issues no command.
\<close>

definition sleep :: "nat \<Rightarrow> jsval promise" where
  "sleep ms = resolved JUndefined"

text \<open>\<^verbatim>\<open>p.then(callback, errback)\<close>, \<^verbatim>\<open>p.then(callback)\<close>, \<^verbatim>\<open>p.otherwise(errback)\<close> and
  \<^verbatim>\<open>p.always(f)\<close> of the promise library.\<close>

definition thenBoth ::
  "'a promise \<Rightarrow> ('a \<Rightarrow> 'b promise) \<Rightarrow> (session_error \<Rightarrow> 'b promise) \<Rightarrow> 'b promise" where
  "thenBoth p callback errback s =
     (case p s of
        (Resolved v, s') \<Rightarrow> callback v s'
      | (Rejected e, s') \<Rightarrow> errback e s'
      | (Pending, s') \<Rightarrow> (Pending, s'))"

definition thenDo :: "'a promise \<Rightarrow> ('a \<Rightarrow> 'b promise) \<Rightarrow> 'b promise" where
  "thenDo p callback = thenBoth p callback rejected"

definition otherwise :: "'a promise \<Rightarrow> (session_error \<Rightarrow> 'a promise) \<Rightarrow> 'a promise" where
  "otherwise p errback = thenBoth p resolved errback"

definition always :: "'a promise \<Rightarrow> 'b promise \<Rightarrow> 'b promise" where
  "always p f = thenBoth p (\<lambda>_. f) (\<lambda>_. f)"

text \<open>Lines 192 to 196.\<close>

definition supported :: "'a \<Rightarrow> jsval promise" where
  "supported x = resolved (JBool True)"

definition unsupported :: "'a \<Rightarrow> jsval promise" where
  "unsupported x = resolved (JBool False)"

definition maybeSupported :: "session_error \<Rightarrow> jsval promise" where
  "maybeSupported error = resolved (JBool (errName error \<noteq> ''UnknownCommand''))"

definition broken :: "'a \<Rightarrow> jsval promise" where
  "broken = supported"

definition works :: "'a \<Rightarrow> jsval promise" where
  "works = unsupported"

text \<open>
  Reading \<^verbatim>\<open>v.name\<close> inside a callback: a TypeError, that is a rejection, when \<open>v\<close>
  is \<^verbatim>\<open>null\<close> or \<^verbatim>\<open>undefined\<close>. \<^verbatim>\<open>length\<close> is also a property of arrays and
  strings.
\<close>

definition member :: "jsval \<Rightarrow> string \<Rightarrow> jsval promise" where
  "member v name =
     (case v of
        JUndefined \<Rightarrow> rejected thrownTypeError
      | JNull \<Rightarrow> rejected thrownTypeError
      | JArr xs \<Rightarrow> resolved (if name = ''length'' then JNum (int (length xs)) else JUndefined)
      | JStr t \<Rightarrow> resolved (if name = ''length'' then JNum (int (length t)) else JUndefined)
      | _ \<Rightarrow> resolved (getProp v name))"

text \<open>A method of an element handle: calling it on anything else throws.\<close>

definition elementCommand :: "string \<Rightarrow> jsval \<Rightarrow> jsval list \<Rightarrow> jsval promise" where
  "elementCommand name element args =
     (case element of
        JElem e \<Rightarrow> command name (JElem e # args)
      | _ \<Rightarrow> rejected thrownTypeError)"

definition quoted :: "string \<Rightarrow> string" where
  "quoted t = CHR 0x27 # t @ [CHR 0x27]"

text \<open>The function \<^verbatim>\<open>get(page)\<close> of lines 234 to 242.\<close>

definition getPage :: "string \<Rightarrow> jsval promise" where
  "getPage page s =
     (if capability s ''supportsNavigationDataUris'' \<noteq> JBool False then
        command ''get'' [JStr (''data:text/html;charset=utf-8,'' @ encodeURIComponent page)] s
      else
        thenDo (command ''get'' [JStr ''about:blank''])
          (\<lambda>_. command ''execute'' [JStr ''document.write(arguments[0]);'', JArr [JStr page]]) s)"

section \<open>The entries of a batch\<close>

text \<open>
  A value of the \<^verbatim>\<open>testedCapabilities\<close> object as the discovery functions build it:
  a promise that is already in flight (with what it settles to), a plain value, or a
  function that is still to be called.
\<close>

datatype tested =
    InFlight "(session_error, jsval) settled"
  | Plain jsval
  | Function "jsval promise"

text \<open>A value of the object \<^verbatim>\<open>addCapabilities\<close> receives: no promise is left.\<close>

datatype outcome =
    Value jsval
  | Thunk "jsval promise"

text \<open>An object literal of plain values, as \<^verbatim>\<open>addCapabilities\<close> receives it.\<close>

definition plainObject :: "(string \<times> jsval) list \<Rightarrow> (string \<times> outcome) list" where
  "plainObject object = map (\<lambda>entry. (fst entry, Value (snd entry))) object"

type_synonym builder = "(string \<times> tested) list \<times> session_state"

text \<open>
  \<^verbatim>\<open>if (cond) { testedCapabilities.key = session.command(...).then(...) }\<close>: the probe
  starts at once.
\<close>

definition startIf :: "bool \<Rightarrow> string \<Rightarrow> jsval promise \<Rightarrow> builder \<Rightarrow> builder" where
  "startIf cond key probe b =
     (case b of (testedCapabilities, s) \<Rightarrow>
        if cond then
          (case probe (logEvent (ImmediateStarted key) s) of
             (r, s') \<Rightarrow> (testedCapabilities @ [(key, InFlight r)], s'))
        else (testedCapabilities, s))"

text \<open>\<^verbatim>\<open>if (cond) { testedCapabilities.key = value }\<close> for a function or a plain value.\<close>

definition assignIf :: "bool \<Rightarrow> string \<Rightarrow> tested \<Rightarrow> builder \<Rightarrow> builder" where
  "assignIf cond key v b =
     (case b of (testedCapabilities, s) \<Rightarrow>
        if cond then (testedCapabilities @ [(key, v)], s) else (testedCapabilities, s))"

definition build :: "(builder \<Rightarrow> builder) list \<Rightarrow> session_state \<Rightarrow> builder" where
  "build steps s = foldl (\<lambda>b step. step b) ([], s) steps"

section \<open>The promise library's \<^verbatim>\<open>all\<close>\<close>

text \<open>
  \<^verbatim>\<open>whenAll(testedCapabilities)\<close> is \<^verbatim>\<open>dojo/promise/all\<close>, which is not part of the
  repository. It copies the entries that are not promises into the result at once, in
  key order, and every promise's value when that promise resolves; it resolves with the
  result when all promises have resolved, and is rejected as soon as one promise is.
\<close>

fun syncEntries :: "(string \<times> tested) list \<Rightarrow> (string \<times> outcome) list" where
  "syncEntries [] = []"
| "syncEntries ((k, Plain v) # rest) = (k, Value v) # syncEntries rest"
| "syncEntries ((k, Function f) # rest) = (k, Thunk f) # syncEntries rest"
| "syncEntries ((k, InFlight r) # rest) = syncEntries rest"

text \<open>The promises of the object, each with what it settles to.\<close>

fun inFlight :: "(string \<times> tested) list \<Rightarrow> (string \<times> (session_error, jsval) settled) list" where
  "inFlight [] = []"
| "inFlight ((k, InFlight r) # rest) = (k, r) # inFlight rest"
| "inFlight ((k, v) # rest) = inFlight rest"

fun functionKeys :: "(string \<times> tested) list \<Rightarrow> string list" where
  "functionKeys [] = []"
| "functionKeys ((k, Function f) # rest) = k # functionKeys rest"
| "functionKeys ((k, v) # rest) = functionKeys rest"

text \<open>
  The promises in the order in which they settle: as \<open>arrival\<close> names them, and those
  it does not name last.
\<close>

definition settleOrder :: "string list \<Rightarrow> (string \<times> 'a) list \<Rightarrow> (string \<times> 'a) list" where
  "settleOrder arr entries =
     concat (map (\<lambda>k. filter (\<lambda>entry. fst entry = k) entries) (remdups arr))
     @ filter (\<lambda>entry. fst entry \<notin> set arr) entries"

text \<open>
  The listeners of \<^verbatim>\<open>all\<close>, one promise after the other as they settle: a value goes
  into the result, a rejection rejects the whole, a promise that never settles never
  calls its listener.
\<close>

fun settleAll ::
  "(string \<times> (session_error, jsval) settled) list \<Rightarrow> (string \<times> outcome) list
     \<Rightarrow> (string \<times> outcome) list promise" where
  "settleAll [] results s = (Resolved results, s)"
| "settleAll ((k, r) # rest) results s =
     (case r of
        Resolved v \<Rightarrow>
          settleAll rest (results @ [(k, Value v)]) (logEvent (ImmediateSettled k) s)
      | Rejected e \<Rightarrow> (Rejected e, logEvent (ImmediateSettled k) s)
      | Pending \<Rightarrow> settleAll rest results s)"

definition whenAll :: "(string \<times> tested) list \<Rightarrow> (string \<times> outcome) list promise" where
  "whenAll testedCapabilities s =
     (case settleAll (settleOrder (arrival s) (inFlight testedCapabilities))
             (syncEntries testedCapabilities) s of
        (Resolved results, s') \<Rightarrow>
          if list_ex (\<lambda>entry. snd entry = Pending) (inFlight testedCapabilities)
          then (Pending, s') else (Resolved results, s')
      | (Rejected e, s') \<Rightarrow> (Rejected e, s')
      | (Pending, s') \<Rightarrow> (Pending, s'))"

section \<open>Merging: \<^verbatim>\<open>addCapabilities\<close>\<close>

text \<open>
  Lines 203 to 232. \<^verbatim>\<open>next\<close> takes the keys of the object in order and stops at the
  end of the keys (line 212 also stops at a key that is the empty string). A function is
  called and waited for; when it fails, \<^verbatim>\<open>dfd\<close> is rejected and \<^verbatim>\<open>next\<close> is not
  called again.
\<close>

fun addCapabilities :: "(string \<times> outcome) list \<Rightarrow> unit promise" where
  "addCapabilities [] s = (Resolved (), s)"
| "addCapabilities ((key, v) # rest) s =
     (if key = [] then (Resolved (), s)
      else
        (case v of
           Thunk f \<Rightarrow>
             (case f (logEvent (DeferredStarted key) s) of
                (Resolved x, s') \<Rightarrow>
                  addCapabilities rest (writeCapability key x (logEvent (DeferredSettled key) s'))
              | (Rejected e, s') \<Rightarrow> (Rejected e, logEvent (DeferredSettled key) s')
              | (Pending, s') \<Rightarrow> (Pending, s'))
         | Value x \<Rightarrow> addCapabilities rest (writeCapability key x s)))"

section \<open>Feature discovery\<close>

text \<open>Lines 250 to 262: what is reported for SafariDriver on a Mac, without any test.\<close>

definition safariFeatures :: "(string \<times> jsval) list" where
  "safariFeatures =
     [(''nativeEvents'', JBool False),
      (''rotatable'', JBool False),
      (''locationContextEnabled'', JBool False),
      (''webStorageEnabled'', JBool False),
      (''applicationCacheEnabled'', JBool False),
      (''supportsNavigationDataUris'', JBool True),
      (''supportsCssTransforms'', JBool True),
      (''supportsExecuteAsync'', JBool True),
      (''mouseEnabled'', JBool True),
      (''touchEnabled'', JBool False),
      (''dynamicViewport'', JBool True)]"

definition isSafariOnMac :: "session_state \<Rightarrow> bool" where
  "isSafariOnMac s \<longleftrightarrow>
     capability s ''browserName'' = JStr ''safari'' \<and> capability s ''platform'' = JStr ''MAC''"

text \<open>Line 267.\<close>

definition rotatable :: "jsval promise" where
  "rotatable = thenBoth (command ''getOrientation'' []) supported unsupported"

text \<open>Lines 273 to 277.\<close>

definition locationContextEnabled :: "jsval promise" where
  "locationContextEnabled =
     thenBoth (command ''getGeolocation'' []) supported
       (\<lambda>error. resolved (JBool (errName error \<noteq> ''UnknownCommand'' \<and>
                                 \<not> containsText (errMessage error) ''not mapped : GET_LOCATION'')))"

text \<open>Lines 283 and 284.\<close>

definition webStorageEnabled :: "jsval promise" where
  "webStorageEnabled = thenBoth (command ''getLocalStorageLength'' []) supported maybeSupported"

text \<open>Lines 290 and 291.\<close>

definition applicationCacheEnabled :: "jsval promise" where
  "applicationCacheEnabled =
     thenBoth (command ''getApplicationCacheStatus'' []) supported maybeSupported"

text \<open>Line 296.\<close>

definition takesScreenshot :: "jsval promise" where
  "takesScreenshot = thenBoth (command ''takeScreenshot'' []) supported unsupported"

text \<open>Line 299.\<close>

definition supportsExecuteAsync :: "jsval promise" where
  "supportsExecuteAsync =
     otherwise (command ''executeAsync'' [JStr ''arguments[0](true);'']) unsupported"

text \<open>Lines 304 and 305.\<close>

definition mouseEnabled :: "jsval promise" where
  "mouseEnabled = thenBoth (command ''doubleClick'' []) supported maybeSupported"

text \<open>Lines 309 and 310.\<close>

definition touchEnabled :: "jsval promise" where
  "touchEnabled = thenBoth (command ''longTap'' []) supported maybeSupported"

text \<open>Lines 314 to 316.\<close>

definition dynamicViewport :: "jsval promise" where
  "dynamicViewport =
     thenBoth
       (thenDo (command ''getWindowSize'' [])
          (\<lambda>originalSize.
             thenDo (member originalSize ''width'') (\<lambda>width.
             thenDo (member originalSize ''height'') (\<lambda>height.
               command ''setWindowSize'' [width, height]))))
       supported unsupported"

text \<open>Lines 319 to 325.\<close>

definition supportsNavigationDataUris :: "jsval promise" where
  \<open>supportsNavigationDataUris =
     otherwise
       (thenDo
          (thenDo (getPage ''<!DOCTYPE html><title>a</title>'')
             (\<lambda>_. command ''getPageTitle'' []))
          (\<lambda>pageTitle. resolved (JBool (pageTitle = JStr ''a''))))
       unsupported\<close>

definition transformPage :: string where
  \<open>transformPage = ''<!DOCTYPE html><style>#a{width:8px;height:8px;-ms-transform:scale(0.5);-moz-transform:scale(0.5);-webkit-transform:scale(0.5);transform:scale(0.5);}</style><div id="a"></div>''\<close>

text \<open>Lines 327 to 335; the function handed to \<^verbatim>\<open>execute\<close> travels as its source text.\<close>

definition supportsCssTransforms :: "jsval promise" where
  \<open>supportsCssTransforms =
     otherwise
       (thenDo (getPage transformPage)
          (\<lambda>_. command ''execute''
             [JStr (''function () { var bbox = document.getElementById('' @ quoted ''a''
                    @ '').getBoundingClientRect(); return bbox.right - bbox.left === 4; }'')]))
       unsupported\<close>

text \<open>
  \<^verbatim>\<open>discoverFeatures\<close>, lines 244 to 338. The capabilities do not change while the
  object is built, so every condition reads those of the state it starts in.
\<close>

definition featureSteps :: "session_state \<Rightarrow> (builder \<Rightarrow> builder) list" where
  "featureSteps s =
     [startIf (\<not> hasCapability s ''rotatable'') ''rotatable'' rotatable,
      startIf (truthy (capability s ''locationContextEnabled''))
        ''locationContextEnabled'' locationContextEnabled,
      startIf (truthy (capability s ''webStorageEnabled'')) ''webStorageEnabled'' webStorageEnabled,
      startIf (truthy (capability s ''applicationCacheEnabled''))
        ''applicationCacheEnabled'' applicationCacheEnabled,
      startIf True ''takesScreenshot'' takesScreenshot,
      startIf True ''supportsExecuteAsync'' supportsExecuteAsync,
      startIf (\<not> hasCapability s ''mouseEnabled'') ''mouseEnabled'' mouseEnabled,
      startIf (\<not> hasCapability s ''touchEnabled'') ''touchEnabled'' touchEnabled,
      startIf (\<not> hasCapability s ''dynamicViewport'') ''dynamicViewport'' dynamicViewport,
      assignIf True ''supportsNavigationDataUris'' (Function supportsNavigationDataUris),
      assignIf True ''supportsCssTransforms'' (Function supportsCssTransforms)]"

definition discoverFeatures :: "(string \<times> outcome) list promise" where
  "discoverFeatures s =
     (if isSafariOnMac s then (Resolved (plainObject safariFeatures), s)
      else (case build (featureSteps s) s of
              (testedCapabilities, s') \<Rightarrow> whenAll testedCapabilities s'))"

section \<open>Defect discovery\<close>

text \<open>Lines 346 to 363.\<close>

definition safariDefects :: "(string \<times> jsval) list" where
  "safariDefects =
     [(''brokenDeleteCookie'', JBool False),
      (''brokenExecuteElementReturn'', JBool False),
      (''brokenElementDisplayedOpacity'', JBool False),
      (''brokenWindowSwitch'', JBool True),
      (''brokenDoubleClick'', JBool False),
      (''brokenCssTransformedSize'', JBool True),
      (''fixedLogTypes'', JBool False),
      (''brokenHtmlTagName'', JBool False),
      (''brokenNullGetAttribute'', JBool False),
      (''brokenNavigation'', JBool True),
      (''brokenMouseEvents'', JBool True),
      (''brokenWindowPosition'', JBool True),
      (''brokenSendKeys'', JBool True),
      (''brokenSubmitElement'', JBool True)]"

text \<open>Lines 367 to 397; \<^verbatim>\<open>a || b\<close> is \<open>a\<close> when \<open>a\<close> is truthy.\<close>

definition brokenDeleteCookie :: "jsval promise" where
  "brokenDeleteCookie s =
     thenDo
       (otherwise
          (thenDo
             (thenDo
                (thenDo
                   (thenDo
                      (thenDo
                         (command ''get''
                            [if truthy (capability s ''initialBrowserUrl'')
                             then capability s ''initialBrowserUrl'' else JStr ''about:blank''])
                         (\<lambda>_. command ''clearCookies'' []))
                      (\<lambda>_. command ''setCookie''
                              [JObj [(''name'', JStr ''foo''), (''value'', JStr ''foo'')]]))
                   (\<lambda>_. command ''deleteCookie'' [JStr ''foo'']))
                (\<lambda>_. command ''getCookies'' []))
             (\<lambda>cookies. thenDo (member cookies ''length'')
                (\<lambda>n. resolved (JBool (truthy n)))))
          (\<lambda>error. resolved (JBool (\<not> containsText (errMessage error) ''bug.unknown protocol''))))
       (\<lambda>isBroken. always (command ''clearCookies'' []) (resolved isBroken)) s"

text \<open>Lines 401 to 405.\<close>

definition brokenHtmlTagName :: "jsval promise" where
  "brokenHtmlTagName =
     otherwise
       (thenDo
          (thenDo (command ''getElementByTagName'' [JStr ''body''])
             (\<lambda>element. elementCommand ''getTagName'' element []))
          (\<lambda>tagName. resolved (JBool (tagName \<noteq> JStr ''body''))))
       broken"

text \<open>Lines 409 to 413.\<close>

definition brokenNullGetAttribute :: "jsval promise" where
  "brokenNullGetAttribute =
     otherwise
       (thenDo
          (thenDo (command ''getElementByTagName'' [JStr ''body''])
             (\<lambda>element. elementCommand ''getAttribute'' element [JStr ''nonexisting'']))
          (\<lambda>v. resolved (JBool (v \<noteq> JNull))))
       broken"

text \<open>Lines 416 to 422.\<close>

definition brokenExecuteElementReturn :: "jsval promise" where
  \<open>brokenExecuteElementReturn =
     thenBoth
       (thenDo
          (thenDo (getPage ''<!DOCTYPE html><div id="a"></div>'')
             (\<lambda>_. command ''execute'' [JStr ''return document.getElementById("a");'']))
          (\<lambda>element. if truthy element then elementCommand ''getTagName'' element []
                      else resolved element))
       works broken\<close>

text \<open>Lines 425 to 431.\<close>

definition brokenElementDisplayedOpacity :: "jsval promise" where
  \<open>brokenElementDisplayedOpacity =
     otherwise
       (thenDo
          (thenDo (getPage ''<!DOCTYPE html><div id="a" style="opacity: 0;">a</div>'')
             (\<lambda>_. command ''getElementById'' [JStr ''a'']))
          (\<lambda>element. elementCommand ''isDisplayed'' element []))
       broken\<close>

text \<open>Lines 437 to 443.\<close>

definition fixedLogTypes :: "jsval promise" where
  "fixedLogTypes =
     thenBoth (command ''getAvailableLogTypes'' []) unsupported
       (\<lambda>error s.
          if capability s ''browserName'' = JStr ''selendroid'' then
            (case errResponseText error of
               None \<Rightarrow> rejected thrownTypeError s
             | Some t \<Rightarrow> resolved (JArr (if t = [] then [JStr ''logcat''] else [])) s)
          else resolved (JArr []) s)"

text \<open>Lines 447 and 448.\<close>

definition brokenWindowSwitch :: "session_state \<Rightarrow> jsval" where
  "brokenWindowSwitch s =
     JBool (capability s ''browserName'' = JStr ''Safari'' \<and>
            capability s ''platformName'' = JStr ''IOS'')"

definition clickCounterPage :: string where
  \<open>clickCounterPage = ''<!DOCTYPE html><script>counter = 0; var d = document; d.onclick = d.onmousedown = d.onmouseup = function () { counter++; };</script>''\<close>

text \<open>
  Lines 455 to 464, up to the command that reads the counter.
\<close>

definition countClicks :: "jsval promise" where
  "countClicks =
     thenDo
       (thenDo
          (thenDo
             (thenDo
                (thenDo (getPage clickCounterPage)
                   (\<lambda>_. command ''getElementByTagName'' [JStr ''body'']))
                (\<lambda>element. command ''moveMouseTo'' [element]))
             (\<lambda>_. sleep 100))
          (\<lambda>_. command ''doubleClick'' []))
       (\<lambda>_. command ''execute'' [JStr ''return counter;''])"

text \<open>
  \<^verbatim>\<open>retry\<close>, lines 453 to 473: the callback of line 465 and the \<^verbatim>\<open>otherwise(broken)\<close>
  of line 472, which also sits on the promise that the inner \<^verbatim>\<open>retry()\<close> returns.
\<close>

function retry :: "jsval promise" where
  "retry s =
     (case countClicks s of
        (Resolved counter, s') \<Rightarrow>
          if counter = JNum 0 then
            (case retry s' of
               (Rejected e, s'') \<Rightarrow> broken e s''
             | r \<Rightarrow> r)
          else (Resolved (JBool (counter \<noteq> JNum 6)), s')
      | (Rejected e, s') \<Rightarrow> broken e s'
      | (Pending, s') \<Rightarrow> (Pending, s'))"
  by pat_completeness auto
termination
proof (relation "measure (\<lambda>s. length (replies s))")
  show "wf (measure (\<lambda>s. length (replies s)))" by simp
next
  fix s :: session_state and x :: "(session_error, jsval) settled" and s' counter
  assume "(x, s') = countClicks s" and "x = Resolved counter"
  then have "countClicks s = (Resolved counter, s')" by simp
  then have "length (replies s') < length (replies s)"
    by (auto simp: countClicks_def thenDo_def thenBoth_def command_def rejected_def
        sleep_def resolved_def getPage_def split: if_splits prod.splits settled.splits list.splits)
  then show "(s', s) \<in> measure (\<lambda>s. length (replies s))" by simp
qed

declare retry.simps [simp del]

text \<open>Lines 478 to 480.\<close>

definition brokenLongTap :: "jsval promise" where
  "brokenLongTap =
     thenBoth
       (thenDo (command ''getElementByTagName'' [JStr ''body''])
          (\<lambda>element. command ''longTap'' [element]))
       works broken"

text \<open>Lines 484 to 486.\<close>

definition brokenMoveFinger :: "jsval promise" where
  "brokenMoveFinger =
     thenBoth (command ''pressFinger'' [JNum 0, JNum 0]) works
       (\<lambda>error. resolved (JBool (errName error = ''UnknownCommand'' \<or>
                                 containsText (errMessage error) ''need to specify the JS'')))"

definition scrollTestUrl :: string where
  \<open>scrollTestUrl = ''<!DOCTYPE html><div id="a" style="margin: 3000px;"></div>''\<close>

text \<open>Lines 492 to 509.\<close>

definition brokenTouchScroll :: "jsval promise" where
  "brokenTouchScroll =
     otherwise
       (thenDo
          (thenDo
             (thenDo (getPage scrollTestUrl)
                (\<lambda>_. command ''touchScroll'' [JNum 0, JNum 20]))
             (\<lambda>_. command ''execute'' [JStr ''return window.scrollY !== 20;'']))
          (\<lambda>isBroken.
             if truthy isBroken then resolved (JBool True)
             else
               thenDo
                 (thenDo (command ''getElementById'' [JStr ''a''])
                    (\<lambda>element. command ''touchScroll'' [element, JNum 0, JNum 0]))
                 (\<lambda>_. command ''execute'' [JStr ''return window.scrollY !== 3000;''])))
       broken"

text \<open>Lines 513 to 520.\<close>

definition brokenFlickFinger :: "jsval promise" where
  "brokenFlickFinger =
     otherwise
       (thenDo
          (thenDo (getPage scrollTestUrl)
             (\<lambda>_. command ''flickFinger'' [JNum 0, JNum 400]))
          (\<lambda>_. command ''execute'' [JStr ''return window.scrollY === 0;'']))
       broken"

text \<open>Lines 524 to 532; the second comparison is made only when the first is false.\<close>

definition brokenElementPosition :: "jsval promise" where
  "brokenElementPosition =
     otherwise
       (thenDo
          (thenDo
             (thenDo (getPage scrollTestUrl)
                (\<lambda>_. command ''getElementById'' [JStr ''a'']))
             (\<lambda>element. elementCommand ''getPosition'' element []))
          (\<lambda>position.
             thenDo (member position ''x'') (\<lambda>x.
               if x \<noteq> JNum 3000 then resolved (JBool True)
               else thenDo (member position ''y'') (\<lambda>y. resolved (JBool (y \<noteq> JNum 3000))))))
       broken"

text \<open>
  Lines 535 to 559. The refresh races against a timer of 2000 ms: a reply \<open>Pending\<close>
  stands for a refresh that has not settled when the timer fires; \<^verbatim>\<open>cleanup\<close> then
  cancels it, which rejects it, and the errback of line 548 resolves \<^verbatim>\<open>dfd\<close> with
  \<^verbatim>\<open>true\<close>.
\<close>

definition brokenRefresh :: "jsval promise" where
  "brokenRefresh =
     otherwise
       (thenDo (command ''get'' [JStr ''about:blank?1''])
          (\<lambda>_ s. case command ''refresh'' [] s of
                    (Resolved v, s') \<Rightarrow> (Resolved (JBool False), s')
                  | (Rejected e, s') \<Rightarrow> (Resolved (JBool True), s')
                  | (Pending, s') \<Rightarrow> (Resolved (JBool True), s')))
       broken"

text \<open>Lines 563 to 574.\<close>

definition brokenCssTransformedSize :: "jsval promise" where
  \<open>brokenCssTransformedSize =
     otherwise
       (thenDo (getPage transformPage)
          (\<lambda>_. thenDo
                  (thenDo
                     (command ''execute''
                        [JStr (''function () { return document.getElementById('' @ quoted ''a''
                               @ ''); }'')])
                     (\<lambda>element. elementCommand ''getSize'' element []))
                  (\<lambda>dimensions.
                     thenDo (member dimensions ''width'') (\<lambda>width.
                       if width \<noteq> JNum 4 then resolved (JBool True)
                       else thenDo (member dimensions ''height'')
                              (\<lambda>height. resolved (JBool (height \<noteq> JNum 4)))))))
       broken\<close>

text \<open>\<^verbatim>\<open>discoverDefects\<close>, lines 340 to 578.\<close>

definition defectSteps :: "session_state \<Rightarrow> (builder \<Rightarrow> builder) list" where
  "defectSteps s =
     [assignIf True ''brokenDeleteCookie'' (Function brokenDeleteCookie),
      startIf True ''brokenHtmlTagName'' brokenHtmlTagName,
      startIf True ''brokenNullGetAttribute'' brokenNullGetAttribute,
      assignIf True ''brokenExecuteElementReturn'' (Function brokenExecuteElementReturn),
      assignIf True ''brokenElementDisplayedOpacity'' (Function brokenElementDisplayedOpacity),
      startIf True ''fixedLogTypes'' fixedLogTypes,
      assignIf True ''brokenWindowSwitch'' (Plain (brokenWindowSwitch s)),
      assignIf (truthy (capability s ''mouseEnabled'')) ''brokenDoubleClick'' (Function retry),
      startIf (truthy (capability s ''touchEnabled'')) ''brokenLongTap'' brokenLongTap,
      startIf (truthy (capability s ''touchEnabled'')) ''brokenMoveFinger'' brokenMoveFinger,
      assignIf (truthy (capability s ''touchEnabled''))
        ''brokenTouchScroll'' (Function brokenTouchScroll),
      assignIf (truthy (capability s ''touchEnabled''))
        ''brokenFlickFinger'' (Function brokenFlickFinger),
      assignIf (truthy (capability s ''touchEnabled''))
        ''brokenElementPosition'' (Function brokenElementPosition),
      assignIf (truthy (capability s ''touchEnabled'')) ''brokenRefresh'' (Function brokenRefresh),
      assignIf (truthy (capability s ''supportsCssTransforms''))
        ''brokenCssTransformedSize'' (Function brokenCssTransformedSize)]"

definition discoverDefects :: "(string \<times> outcome) list promise" where
  "discoverDefects s =
     (if isSafariOnMac s then (Resolved (plainObject safariDefects), s)
      else (case build (defectSteps s) s of
              (testedCapabilities, s') \<Rightarrow> whenAll testedCapabilities s'))"

section \<open>Negotiation: \<^verbatim>\<open>_fixSessionCapabilities\<close>\<close>

text \<open>Lines 580 to 584: the chain in front of \<^verbatim>\<open>always\<close>.\<close>

definition discovery :: "unit promise" where
  "discovery =
     thenDo
       (thenDo
          (thenDo
             (thenDo (command ''get'' [JStr ''about:blank'']) (\<lambda>_. discoverFeatures))
             addCapabilities)
          (\<lambda>_. discoverDefects))
       addCapabilities"

text \<open>Lines 586 to 589: the callback of \<^verbatim>\<open>always\<close>; the session is returned as its handle.\<close>

definition cleanup :: "string promise" where
  "cleanup =
     thenDo (command ''get'' [JStr ''about:blank'']) (\<lambda>_ s. (Resolved (sessionId s), s))"

definition fixSessionCapabilities :: "string promise" where
  "fixSessionCapabilities = always discovery cleanup"

section \<open>Notions used to state the properties\<close>

text \<open>
  A promise is quiet when running it leaves the capabilities, the event log, the session
  id and the arrival order alone: it only issues commands and takes replies.
\<close>

definition quiet :: "'a promise \<Rightarrow> bool" where
  "quiet p \<longleftrightarrow>
     (\<forall>s. capabilities (snd (p s)) = capabilities s \<and> events (snd (p s)) = events s \<and>
          sessionId (snd (p s)) = sessionId s \<and> arrival (snd (p s)) = arrival s)"

definition quietThunks :: "(string \<times> outcome) list \<Rightarrow> bool" where
  "quietThunks batch \<longleftrightarrow> (\<forall>k f. (k, Thunk f) \<in> set batch \<longrightarrow> quiet f)"

text \<open>The writes of an event log, and the keys of the functions it shows being called.\<close>

fun writes :: "event list \<Rightarrow> (string \<times> jsval) list" where
  "writes [] = []"
| "writes (Written k v # evs) = (k, v) # writes evs"
| "writes (ev # evs) = writes evs"

fun deferredStarts :: "event list \<Rightarrow> string list" where
  "deferredStarts [] = []"
| "deferredStarts (DeferredStarted k # evs) = k # deferredStarts evs"
| "deferredStarts (ev # evs) = deferredStarts evs"

text \<open>The functions of the two batches, in the order in which the objects get them.\<close>

definition deferredCatalog :: "string list" where
  "deferredCatalog =
     [''supportsNavigationDataUris'', ''supportsCssTransforms'',
      ''brokenDeleteCookie'', ''brokenExecuteElementReturn'', ''brokenElementDisplayedOpacity'',
      ''brokenDoubleClick'', ''brokenTouchScroll'', ''brokenFlickFinger'',
      ''brokenElementPosition'', ''brokenRefresh'', ''brokenCssTransformedSize'']"

text \<open>Everything that was started has settled.\<close>

definition allSettled :: "event list \<Rightarrow> bool" where
  "allSettled evs \<longleftrightarrow>
     (\<forall>k. ImmediateStarted k \<in> set evs \<longrightarrow> ImmediateSettled k \<in> set evs) \<and>
     (\<forall>k. DeferredStarted k \<in> set evs \<longrightarrow> DeferredSettled k \<in> set evs)"

text \<open>The state after \<open>n\<close> rounds of the double-click test that all read a counter of 0.\<close>

fun afterZeroReadings :: "nat \<Rightarrow> session_state \<Rightarrow> session_state option" where
  "afterZeroReadings 0 s = Some s"
| "afterZeroReadings (Suc n) s =
     (case countClicks s of
        (Resolved counter, s') \<Rightarrow> if counter = JNum 0 then afterZeroReadings n s' else None
      | _ \<Rightarrow> None)"

text \<open>
  The shape of the event log of one merge when functions are called one at a time: plain
  writes, and for every function its start, its settling and the write of its value, in
  this order and with nothing in between; the log may end after a start (the function
  never settles) or after a settling (the function failed).
\<close>

fun oneAtATime :: "event list \<Rightarrow> bool" where
  "oneAtATime [] = True"
| "oneAtATime (Written k v # evs) = oneAtATime evs"
| "oneAtATime [DeferredStarted k] = True"
| "oneAtATime [DeferredStarted k, DeferredSettled k'] = (k' = k)"
| "oneAtATime (DeferredStarted k # DeferredSettled k' # Written k'' v # evs) =
     (k' = k \<and> k'' = k \<and> oneAtATime evs)"
| "oneAtATime evs = False"

text \<open>The keys of the functions of an object handed to \<^verbatim>\<open>addCapabilities\<close>.\<close>

fun thunkKeys :: "(string \<times> outcome) list \<Rightarrow> string list" where
  "thunkKeys [] = []"
| "thunkKeys ((k, Thunk f) # rest) = k # thunkKeys rest"
| "thunkKeys ((k, Value v) # rest) = thunkKeys rest"

text \<open>\<^verbatim>\<open>capabilities[key] = value\<close> for a list of writes, first to last.\<close>

definition applyWrites :: "(string \<times> jsval) list \<Rightarrow> (string \<times> jsval) list \<Rightarrow> (string \<times> jsval) list" where
  "applyWrites ws caps = foldl (\<lambda>c w. AList.update (fst w) (snd w) c) caps ws"

text \<open>
  A step of building the object is regular when it only adds entries at the end, starts
  exactly the promises it adds, changes nothing else of the session, and adds only quiet
  functions.
\<close>

definition regular :: "(builder \<Rightarrow> builder) \<Rightarrow> bool" where
  "regular step \<longleftrightarrow>
     (\<forall>testedCapabilities s. \<exists>new.
        fst (step (testedCapabilities, s)) = testedCapabilities @ new \<and>
        events (snd (step (testedCapabilities, s)))
          = events s @ map ImmediateStarted (map fst (inFlight new)) \<and>
        capabilities (snd (step (testedCapabilities, s))) = capabilities s \<and>
        sessionId (snd (step (testedCapabilities, s))) = sessionId s \<and>
        arrival (snd (step (testedCapabilities, s))) = arrival s \<and>
        (\<forall>k f. (k, Function f) \<in> set new \<longrightarrow> quiet f))"

text \<open>
  A promise is prompt when it only takes replies from the front of the list and, as long
  as every reply in the list is an answer, stays pending only when the list is used up.
\<close>

definition prompt :: "'a promise \<Rightarrow> bool" where
  "prompt p \<longleftrightarrow>
     (\<forall>s. suffix (replies (snd (p s))) (replies s) \<and>
          (Pending \<notin> set (replies s) \<longrightarrow> fst (p s) = Pending \<longrightarrow> replies (snd (p s)) = []))"

definition promptThunks :: "(string \<times> outcome) list \<Rightarrow> bool" where
  "promptThunks batch \<longleftrightarrow> (\<forall>k f. (k, Thunk f) \<in> set batch \<longrightarrow> prompt f)"


text \<open>
  An event log is orderly when, wherever it shows a function being started, everything
  that was started before that point has settled before that point.
\<close>

definition orderly :: "event list \<Rightarrow> bool" where
  "orderly evs \<longleftrightarrow> (\<forall>pre k post. evs = pre @ DeferredStarted k # post \<longrightarrow> allSettled pre)"

text \<open>
  A promise is absorbing when it is never rejected: whatever fails on its way ends in a
  value.
\<close>

definition absorbing :: "'a promise \<Rightarrow> bool" where
  "absorbing p \<longleftrightarrow> (\<forall>s e. fst (p s) \<noteq> Rejected e)"

text \<open>
  An object under construction is contained when its functions are absorbing and its
  promises are not rejected, except that a promise under one of the keys \<open>leaks\<close> may be
  rejected with the TypeError of a callback.
\<close>

definition contained :: "string set \<Rightarrow> (string \<times> tested) list \<Rightarrow> bool" where
  "contained leaks testedCapabilities \<longleftrightarrow>
     (\<forall>k e. (k, InFlight (Rejected e)) \<in> set testedCapabilities \<longrightarrow>
        k \<in> leaks \<and> e = thrownTypeError) \<and>
     (\<forall>k f. (k, Function f) \<in> set testedCapabilities \<longrightarrow> absorbing f)"



section \<open>Concrete inputs\<close>

text \<open>
  Modelled from the spec: the error taxonomy (\<^verbatim>\<open>./statusCodes\<close> is not among the sources),
  in the two entries that the code itself names (lines 74 and 95): 9 is the unknown
  command, 13 the unknown error.
\<close>

definition exampleStatusCodes :: status_table where
  "exampleStatusCodes v =
     (if v = JNum 9 then Some (''UnknownCommand'', ''The requested command is not known.'')
      else if v = JNum 13 then Some (''UnknownError'', ''An unknown error occurred.'')
      else None)"

definition exampleRequest :: request_info where
  "exampleRequest =
     \<lparr> reqUrl = ''http://localhost:4444/wd/hub/session/abc/url'', reqMethod = ''GET'',
       reqData = JUndefined \<rparr>"

definition jsonResponse :: "nat \<Rightarrow> string \<Rightarrow> jsval option \<Rightarrow> response" where
  "jsonResponse code body parsed =
     \<lparr> status = code, getHeader = [''Content-Type'' \<mapsto> ''application/json; charset=utf-8''],
       responseText = body, jsonOfText = parsed \<rparr>"

text \<open>HTTP 200 with the body \<^verbatim>\<open>{"message": "cannot find command X"}\<close>.\<close>

definition messageOnly :: response where
  \<open>messageOnly =
     jsonResponse 200 ''{"message": "cannot find command X"}''
       (Some (JObj [(''message'', JStr ''cannot find command X'')]))\<close>

text \<open>HTTP 200 with the body \<^verbatim>\<open>{"status": 13, "message": "cannot find command X"}\<close>.\<close>

definition messageWithStatus :: response where
  \<open>messageWithStatus =
     jsonResponse 200 ''{"status": 13, "message": "cannot find command X"}''
       (Some (JObj [(''status'', JNum 13), (''message'', JStr ''cannot find command X'')]))\<close>

text \<open>
  HTTP 200 with the body \<^verbatim>\<open>{"status": "13", "message": "cannot find command X", "screen": true}\<close>:
  the status is a text, and the \<^verbatim>\<open>screen\<close> is nothing a buffer can be made from.
\<close>

definition messageWithScreen :: response where
  \<open>messageWithScreen =
     jsonResponse 200 ''{"status": "13", "message": "cannot find command X", "screen": true}''
       (Some (JObj [(''status'', JStr ''13''), (''message'', JStr ''cannot find command X''),
                    (''screen'', JBool True)]))\<close>

text \<open>HTTP 204 that announces JSON and carries the body \<^verbatim>\<open>{\<close>, which does not parse.\<close>

definition noContentBadJson :: response where
  "noContentBadJson = jsonResponse 204 ''{'' None"

text \<open>
  A redirect to the session resource, a redirect from there to the same resource under
  another name, and the response found there.
\<close>

definition seeOther :: response where
  "seeOther =
     \<lparr> status = 303, getHeader = [''Location'' \<mapsto> ''http://localhost:4444/wd/hub/session/abc''],
       responseText = [], jsonOfText = None \<rparr>"

definition movedOn :: response where
  "movedOn =
     \<lparr> status = 301, getHeader = [''Location'' \<mapsto> ''http://localhost:4444/wd/hub/session/abc/''],
       responseText = [], jsonOfText = None \<rparr>"

text \<open>A redirect whose \<^verbatim>\<open>Location\<close> header is there and empty.\<close>

definition emptyLocation :: response where
  "emptyLocation =
     \<lparr> status = 302, getHeader = [''Location'' \<mapsto> []], responseText = [], jsonOfText = None \<rparr>"

text \<open>The request that creates a session.\<close>

definition newSession :: "reply list \<Rightarrow> (failure, jsval) settled \<times> (string \<times> string) list" where
  "newSession network =
     createHttpRequest exampleStatusCodes ''POST'' ''http://localhost:4444/wd/hub/'' ''session''
       (JObj [(''desiredCapabilities'', JObj [])]) None network"

definition sessionResource :: response where
  \<open>sessionResource =
     jsonResponse 200 ''{"status": 0, "sessionId": "abc", "value": {}}''
       (Some (JObj [(''status'', JNum 0), (''sessionId'', JStr ''abc''), (''value'', JObj [])]))\<close>

text \<open>An envelope that the coercions have already rewritten to status 9.\<close>

definition rewrittenEnvelope :: jsval where
  "rewrittenEnvelope =
     JObj [(''status'', JNum 9),
           (''value'', JObj [(''class'', JStr ''java.lang.UnsupportedOperationException'')])]"

definition notImplemented :: response where
  "notImplemented = jsonResponse 501 [] None"

text \<open>States of a session, given what the remote end will answer.\<close>

definition sessionWith ::
  "(string \<times> jsval) list \<Rightarrow> (session_error, jsval) settled list \<Rightarrow> session_state" where
  "sessionWith caps rs =
     \<lparr> sessionId = ''session-1'', capabilities = caps, replies = rs, arrival = [],
       commands = [], events = [] \<rparr>"

definition navigationError :: session_error where
  "navigationError =
     \<lparr> errName = ''UnknownError'', errMessage = ''navigation failed'', errResponseText = Some [] \<rparr>"

definition firefox :: "(string \<times> jsval) list" where
  "firefox = [(''browserName'', JStr ''firefox'')]"

definition safariOnMac :: "(string \<times> jsval) list" where
  "safariOnMac = [(''browserName'', JStr ''safari''), (''platform'', JStr ''MAC'')]"

definition okReply :: "(session_error, jsval) settled" where
  "okReply = Resolved JNull"

text \<open>The commands of one round of the double-click test, and the replies to a round.\<close>

definition roundCommands :: "(string \<times> jsval list) list" where
  "roundCommands =
     [(''get'', [JStr (''data:text/html;charset=utf-8,'' @ encodeURIComponent clickCounterPage)]),
      (''getElementByTagName'', [JStr ''body'']),
      (''moveMouseTo'', [JElem ''body-1'']),
      (''doubleClick'', []),
      (''execute'', [JStr ''return counter;''])]"

definition roundReplies :: "jsval \<Rightarrow> (session_error, jsval) settled list" where
  "roundReplies counter =
     [okReply, Resolved (JElem ''body-1''), okReply, okReply, Resolved counter]"

text \<open>
  A session that reports the four capabilities whose probes are then skipped, so that two
  promises are in flight in the feature batch; the second of them settles first. The
  replies last until the end of the feature batch.
\<close>

definition negotiationStart :: session_state where
  "negotiationStart =
     (sessionWith
        [(''browserName'', JStr ''firefox''), (''rotatable'', JBool False),
         (''mouseEnabled'', JBool True), (''touchEnabled'', JBool False),
         (''dynamicViewport'', JBool True)]
        [okReply, okReply, Resolved (JBool True), okReply, Resolved (JStr ''a''), okReply,
         Resolved (JBool True)])
     \<lparr> arrival := [''supportsExecuteAsync'', ''takesScreenshot''] \<rparr>"





section \<open>Transport: properties\<close>

lemma requestUrl_without_placeholder:
  "requestUrl ''http://localhost:4444/wd/hub/'' ''status'' None
     = Inr ''http://localhost:4444/wd/hub/status''"
  by (simp add: requestUrl_def isDigit_def)

lemma requestUrl_one_placeholder:
  "requestUrl ''http://localhost:4444/wd/hub/'' ''session/$0'' (Some [''a/b c''])
     = Inr ''http://localhost:4444/wd/hub/session/a%2Fb%20c''"
  by (simp add: requestUrl_def encodedPart_def encodeURIComponent_def encodeChar_def
      unreserved_def isDigit_def digitValue_def hexDigit_def)

text \<open>
  Claim C9: when the request URL is built, every positional placeholder (\<^verbatim>\<open>$0\<close>,
  \<^verbatim>\<open>$1\<close>, ...) of the path template is replaced with the percent-encoding of the
  corresponding argument. The pattern of line 13 has no \<^verbatim>\<open>g\<close> flag: for the template
  \<^verbatim>\<open>session/$0/element/$1\<close> and the arguments \<^verbatim>\<open>abc\<close> and \<^verbatim>\<open>e1\<close> the first
  placeholder is replaced and the second one stays in the URL.
\<close>

theorem second_placeholder_is_left_in_the_url:
  "requestUrl ''http://localhost:4444/wd/hub/'' ''session/$0/element/$1'' (Some [''abc'', ''e1''])
     = Inr ''http://localhost:4444/wd/hub/session/abc/element/$1''"
  by (simp add: requestUrl_def encodedPart_def encodeURIComponent_def encodeChar_def
      unreserved_def isDigit_def digitValue_def)

lemma no_content_success:
  assumes "status r = 204" and "parseBody r = Inr d"
  shows "normalizeResponse statusCodes req r =
           Resolved (JObj [(''status'', JNum 0), (''sessionId'', JNull), (''value'', JNull)])"
  using assms by (simp add: normalizeResponse_def)

text \<open>
  Claim C5: for every raw response with HTTP status 204, normalization succeeds and
  yields the envelope with status 0 and value null, whatever the body. Line 51 parses a
  body that is announced as JSON before line 58 looks at the status: a 204 response with
  a JSON content type and the body \<^verbatim>\<open>{\<close> is rejected with the SyntaxError of
  \<^verbatim>\<open>JSON.parse\<close>.
\<close>

theorem no_content_with_unparsable_body_is_rejected:
  "handleResponse exampleStatusCodes exampleRequest [] noContentBadJson = (Rejected SyntaxError, [])"
  by (simp add: redirectTarget_def normalizeResponse_def parseBody_def noContentBadJson_def
      jsonResponse_def)

text \<open>
  Claim C3, as stated: a response with HTTP status 200 and the JSON body
  \<^verbatim>\<open>{"message": "cannot find command X"}\<close> fails with a protocol error of status 9.
  It does not: line 65 lets the response through, since the HTTP status is below 400 and
  the body has no \<^verbatim>\<open>status\<close> greater than 0; the body is returned as it is.
\<close>

theorem message_only_response_succeeds:
  "handleResponse exampleStatusCodes exampleRequest [] messageOnly
     = (Resolved (JObj [(''message'', JStr ''cannot find command X'')]), [])"
  by (simp add: redirectTarget_def normalizeResponse_def parseBody_def isFailure_def
      messageOnly_def jsonResponse_def)

lemmas positiveText_defs = positiveText_def trimText_def dropLeading.simps whiteSpace_def
  unsignedPositive_def radixPositive_def exponentPart_def signedDigits_def decimalPositive_def
  intOfDigits_def isDigit_def digitValue_def

lemma positive_examples:
  "positive (JStr '' 13 '') = Inr True"
  "positive (JStr ''0x1F'') = Inr True"
  "positive (JStr ''1e-400'') = Inr False"
  "positive (JStr ''-5'') = Inr False"
  "positive (JStr ''13px'') = Inr False"
  "positive (JStr []) = Inr False"
  "positive (JArr [JNum 13]) = Inr True"
  "positive (JArr [JNum 1, JNum 2]) = Inr False"
  "positive (JArr [JObj [(''toString'', JNull)]]) = Inl TypeError"
  "positive (JObj [(''status'', JNum 13)]) = Inr False"
  "positive (JBool True) = Inr True"
  by (simp_all add: positiveText_defs showInt_def)

lemma bufferable_examples:
  "bufferable (JStr ''iVBORw0KGgo='')"
  "bufferable (JArr [JNum 1, JNum 2])"
  "\<not> bufferable (JBool True)"
  "\<not> bufferable (JNum 5)"
  "\<not> bufferable (JObj [(''data'', JStr ''iVBORw0KGgo='')])"
  by simp_all

lemma positiveText_13: "positiveText ''13''"
  by (simp add: positiveText_defs)

text \<open>
  Claim C3, amended: for a response whose JSON body has a \<^verbatim>\<open>message\<close> containing
  \<^verbatim>\<open>cannot find command\<close> and no \<^verbatim>\<open>value\<close>, normalization fails with a protocol
  error of status 9 only when the test of line 65 holds (an HTTP status of 400 or more,
  or a \<^verbatim>\<open>status\<close> in the body that is greater than 0): the error then carries the body
  as its detail and the message of the body as its message. When that test does not
  hold, as for HTTP status 200 and a body without \<^verbatim>\<open>status\<close>, the body is returned
  unchanged. Two cases end in a TypeError instead of a protocol error: a \<^verbatim>\<open>status\<close>
  that cannot be compared with 0, and a truthy \<^verbatim>\<open>screen\<close> in the body that
  \<^verbatim>\<open>new Buffer\<close> refuses, such as \<^verbatim>\<open>true\<close>. In particular, with an HTTP status of
  400 or more or a \<^verbatim>\<open>status\<close> in the body that is a number above 0, the result is
  the protocol error of status 9 when the body has no \<^verbatim>\<open>screen\<close> or a text as
  \<^verbatim>\<open>screen\<close>, and a TypeError when its \<^verbatim>\<open>screen\<close> is \<^verbatim>\<open>true\<close>.
\<close>

theorem message_without_value:
  assumes "getHeader r ''Content-Type'' = Some ty" and "prefix ''application/json'' ty"
    and "responseText r \<noteq> []" and "jsonOfText r = Some (JObj kvs)"
    and "map_of kvs ''message'' = Some (JStr m)" and "containsText m ''cannot find command''"
    and "map_of kvs ''value'' = None" and "status r \<noteq> 204"
  shows "normalizeResponse statusCodes req r =
           (case (if 400 \<le> status r then Inr True else positive (getProp (JObj kvs) ''status'')) of
              Inl e \<Rightarrow> Rejected e
            | Inr False \<Rightarrow> Resolved (JObj kvs)
            | Inr True \<Rightarrow>
                if truthy (getProp (JObj kvs) ''screen'') \<and> \<not> bufferable (getProp (JObj kvs) ''screen'')
                then Rejected TypeError
                else
                  Rejected (ProtocolError
                    \<lparr> errorName = (case statusCodes (JNum 9) of Some (n, t) \<Rightarrow> n | None \<Rightarrow> ''Error''),
                      errorMessage = JStr m,
                      errorStatus = JNum 9,
                      errorDetail = JObj kvs,
                      errorScreen =
                        (if truthy (getProp (JObj kvs) ''screen'')
                         then Some (getProp (JObj kvs) ''screen'') else None),
                      errorRequest = req,
                      errorResponse = r \<rparr>))
       \<and> (status r = 200 \<and> map_of kvs ''status'' = None
          \<longrightarrow> normalizeResponse statusCodes req r = Resolved (JObj kvs))
       \<and> ((400 \<le> status r \<or> (\<exists>n. map_of kvs ''status'' = Some (JNum n) \<and> 0 < n)) \<and>
          (map_of kvs ''screen'' = None \<or> (\<exists>t. map_of kvs ''screen'' = Some (JStr t)))
          \<longrightarrow> (\<exists>e. normalizeResponse statusCodes req r = Rejected (ProtocolError e) \<and>
                    errorStatus e = JNum 9 \<and> errorMessage e = JStr m \<and>
                    errorDetail e = JObj kvs))
       \<and> ((400 \<le> status r \<or> (\<exists>n. map_of kvs ''status'' = Some (JNum n) \<and> 0 < n)) \<and>
          map_of kvs ''screen'' = Some (JBool True)
          \<longrightarrow> normalizeResponse statusCodes req r = Rejected TypeError)"
proof -
  have d: "parseBody r = Inr (JObj kvs)"
    using assms by (auto simp: parseBody_def)
  have v: "getProp (JObj kvs) ''value'' = JUndefined"
    and m: "getProp (JObj kvs) ''message'' = JStr m"
    using assms by simp_all
  have hm: "hasProperty ''message'' (JObj kvs) = Inr True"
    using assms(5) by (auto dest: map_of_SomeD intro: rev_image_eqI)
  have mt: "m \<noteq> []"
    using assms(6) by (cases m) simp_all
  have f: "isFailure r (JObj kvs) =
             (if 400 \<le> status r then Inr True else positive (getProp (JObj kvs) ''status''))"
    by (simp add: isFailure_def)
  let ?envelope = "JObj [(''status'', JNum 9), (''value'', JObj kvs)]"
  have fd: "failureData r (JObj kvs) = Inr ?envelope"
    using assms(6) by (simp add: failureData_def v m hm del: getProp.simps hasProperty.simps)
  have c1: "coerceUnsupportedClass (coerceNotImplemented r ?envelope) = Inr ?envelope"
    by (simp add: coerceUnsupportedClass_def coerceNotImplemented_def)
  have c2: "coerceCommandNotFound r ?envelope = Inr ?envelope"
    using assms(5) by (simp add: coerceCommandNotFound_def Let_def split: bool.splits)
  have be: "buildError statusCodes req r ?envelope =
      (if truthy (getProp (JObj kvs) ''screen'') \<and> \<not> bufferable (getProp (JObj kvs) ''screen'')
       then Inl TypeError
       else Inr \<lparr> errorName = (case statusCodes (JNum 9) of Some (n, t) \<Rightarrow> n | None \<Rightarrow> ''Error''),
                   errorMessage = JStr m,
                   errorStatus = JNum 9,
                   errorDetail = JObj kvs,
                   errorScreen =
                     (if truthy (getProp (JObj kvs) ''screen'')
                      then Some (getProp (JObj kvs) ''screen'') else None),
                   errorRequest = req,
                   errorResponse = r \<rparr>)"
    using assms(5) mt by (simp add: buildError_def Let_def)
  have main: "normalizeResponse statusCodes req r =
           (case (if 400 \<le> status r then Inr True else positive (getProp (JObj kvs) ''status'')) of
              Inl e \<Rightarrow> Rejected e
            | Inr False \<Rightarrow> Resolved (JObj kvs)
            | Inr True \<Rightarrow>
                if truthy (getProp (JObj kvs) ''screen'') \<and> \<not> bufferable (getProp (JObj kvs) ''screen'')
                then Rejected TypeError
                else
                  Rejected (ProtocolError
                    \<lparr> errorName = (case statusCodes (JNum 9) of Some (n, t) \<Rightarrow> n | None \<Rightarrow> ''Error''),
                      errorMessage = JStr m,
                      errorStatus = JNum 9,
                      errorDetail = JObj kvs,
                      errorScreen =
                        (if truthy (getProp (JObj kvs) ''screen'')
                         then Some (getProp (JObj kvs) ''screen'') else None),
                      errorRequest = req,
                      errorResponse = r \<rparr>))"
    using assms(8)
    by (simp add: normalizeResponse_def d f fd c1 c2 be
        del: getProp.simps split: sum.splits bool.splits)
  moreover have "normalizeResponse statusCodes req r = Resolved (JObj kvs)"
    if "status r = 200 \<and> map_of kvs ''status'' = None"
    using that by (simp add: main)
  moreover have "\<exists>e. normalizeResponse statusCodes req r = Rejected (ProtocolError e) \<and>
                    errorStatus e = JNum 9 \<and> errorMessage e = JStr m \<and>
                    errorDetail e = JObj kvs"
    if "(400 \<le> status r \<or> (\<exists>n. map_of kvs ''status'' = Some (JNum n) \<and> 0 < n)) \<and>
        (map_of kvs ''screen'' = None \<or> (\<exists>t. map_of kvs ''screen'' = Some (JStr t)))"
    using that by (auto simp: main)
  moreover have "normalizeResponse statusCodes req r = Rejected TypeError"
    if "(400 \<le> status r \<or> (\<exists>n. map_of kvs ''status'' = Some (JNum n) \<and> 0 < n)) \<and>
        map_of kvs ''screen'' = Some (JBool True)"
    using that by (auto simp: main)
  ultimately show ?thesis by blast
qed

theorem message_without_value_witness:
  "normalizeResponse exampleStatusCodes exampleRequest messageWithStatus
     = Rejected (ProtocolError
         \<lparr> errorName = ''UnknownCommand'',
           errorMessage = JStr ''cannot find command X'',
           errorStatus = JNum 9,
           errorDetail = JObj [(''status'', JNum 13), (''message'', JStr ''cannot find command X'')],
           errorScreen = None,
           errorRequest = exampleRequest,
           errorResponse = messageWithStatus \<rparr>) \<and>
   normalizeResponse exampleStatusCodes exampleRequest messageOnly
     = Resolved (JObj [(''message'', JStr ''cannot find command X'')]) \<and>
   normalizeResponse exampleStatusCodes exampleRequest messageWithScreen = Rejected TypeError"
proof (intro conjI)
  show "normalizeResponse exampleStatusCodes exampleRequest messageWithStatus
     = Rejected (ProtocolError
         \<lparr> errorName = ''UnknownCommand'',
           errorMessage = JStr ''cannot find command X'',
           errorStatus = JNum 9,
           errorDetail = JObj [(''status'', JNum 13), (''message'', JStr ''cannot find command X'')],
           errorScreen = None,
           errorRequest = exampleRequest,
           errorResponse = messageWithStatus \<rparr>)"
    using message_without_value
      [of messageWithStatus "''application/json; charset=utf-8''"
          "[(''status'', JNum 13), (''message'', JStr ''cannot find command X'')]"
          "''cannot find command X''" exampleStatusCodes exampleRequest, THEN conjunct1]
    by (simp add: messageWithStatus_def jsonResponse_def exampleStatusCodes_def)
  show "normalizeResponse exampleStatusCodes exampleRequest messageOnly
     = Resolved (JObj [(''message'', JStr ''cannot find command X'')])"
    using message_without_value
      [of messageOnly "''application/json; charset=utf-8''"
          "[(''message'', JStr ''cannot find command X'')]"
          "''cannot find command X''" exampleStatusCodes exampleRequest,
          THEN conjunct2, THEN conjunct1]
    by (simp add: messageOnly_def jsonResponse_def)
  show "normalizeResponse exampleStatusCodes exampleRequest messageWithScreen = Rejected TypeError"
    using message_without_value
      [of messageWithScreen "''application/json; charset=utf-8''"
          "[(''status'', JStr ''13''), (''message'', JStr ''cannot find command X''),
            (''screen'', JBool True)]"
          "''cannot find command X''" exampleStatusCodes exampleRequest, THEN conjunct1]
    by (simp add: messageWithScreen_def jsonResponse_def positiveText_13)
qed

lemma handleResponse_chain:
  assumes "redirectTarget r = Some loc"
    and "\<forall>x \<in> set rs. redirectTarget x \<noteq> None"
    and "\<forall>final rest. tail = Reply final # rest \<longrightarrow> redirectTarget final = None"
  shows "handleResponse statusCodes req (map Reply rs @ tail) r =
           ((case tail of
               [] \<Rightarrow> Pending
             | NoReply # rest \<Rightarrow> Rejected TypeError
             | Reply final # rest \<Rightarrow> normalizeResponse statusCodes req final),
            loc # map (\<lambda>x. the (redirectTarget x)) rs)"
  using assms(1,2)
proof (induction rs arbitrary: r loc)
  case Nil
  show ?case
  proof (cases tail)
    case Nil
    with Nil.prems show ?thesis by simp
  next
    case (Cons x rest)
    show ?thesis
    proof (cases x)
      case NoReply
      with Cons Nil.prems show ?thesis by simp
    next
      case (Reply final)
      with Cons assms(3) have "redirectTarget final = None" by simp
      with Cons Reply Nil.prems show ?thesis by (cases rest) simp_all
    qed
  qed
next
  case (Cons x xs)
  from Cons.prems obtain loc' where x: "redirectTarget x = Some loc'" by auto
  from Cons.prems have "\<forall>y \<in> set xs. redirectTarget y \<noteq> None" by simp
  from Cons.IH [OF x this] Cons.prems(1) x show ?case by simp
qed

text \<open>
  Claim C4, as stated: for a response with an HTTP status from 300 to 399 that carries a
  \<^verbatim>\<open>Location\<close> header, the transport issues exactly one follow-up GET to that
  location, and what is normalized is the follow-up response. It does not when the
  follow-up response is a redirect again: the request that creates a session, answered
  by a redirect whose target answers with another redirect, takes two GET requests, and
  the first follow-up response is never normalized. Nor does it for a \<^verbatim>\<open>Location\<close>
  header that is there and empty: line 41 tests the value of the header, no GET is
  issued, and the redirect response itself is normalized.
\<close>

theorem redirect_chain_takes_two_gets:
  "newSession [Reply seeOther, Reply movedOn, Reply sessionResource] =
     (Resolved (JObj [(''status'', JNum 0), (''sessionId'', JStr ''abc''), (''value'', JObj [])]),
      [(''POST'', ''http://localhost:4444/wd/hub/session''),
       (''GET'', ''http://localhost:4444/wd/hub/session/abc''),
       (''GET'', ''http://localhost:4444/wd/hub/session/abc/'')]) \<and>
   newSession [Reply emptyLocation, Reply sessionResource] =
     (Resolved JUndefined, [(''POST'', ''http://localhost:4444/wd/hub/session'')])"
  by (simp add: newSession_def createHttpRequest_def requestUrl_def redirectTarget_def
      normalizeResponse_def parseBody_def isFailure_def seeOther_def movedOn_def
      emptyLocation_def sessionResource_def jsonResponse_def)

text \<open>
  Claim C4, amended: for a response with an HTTP status from 300 to 399 that carries a
  \<^verbatim>\<open>Location\<close> header with a value, the transport issues one GET to that location
  and treats the response to it in the same way. So a request takes exactly one GET for
  every redirect response in the chain of its responses, each to the location that
  response names, after the request itself; and what is normalized is the response that
  ends the chain, the first one that is not such a redirect, and no redirect response.
  When the chain ends because a GET is never answered, the result stays pending; when it
  ends because a GET fails, the result is the TypeError of line 47 on the error object.
  For a single redirect this is exactly one GET, and the follow-up response is what is
  normalized.
\<close>

theorem every_redirect_is_followed_with_one_get:
  assumes "requestUrl serverUrl path pathParts = Inr url"
    and "300 \<le> status r" and "status r < 400"
    and "getHeader r ''Location'' = Some loc" and "loc \<noteq> []"
    and "\<forall>x \<in> set rs. redirectTarget x \<noteq> None"
    and "\<forall>final rest. tail = Reply final # rest \<longrightarrow> redirectTarget final = None"
  shows "createHttpRequest statusCodes method serverUrl path requestData pathParts
           (Reply r # map Reply rs @ tail) =
           ((case tail of
               [] \<Rightarrow> Pending
             | NoReply # rest \<Rightarrow> Rejected TypeError
             | Reply final # rest \<Rightarrow>
                 normalizeResponse statusCodes
                   \<lparr> reqUrl = url, reqMethod = method, reqData = requestData \<rparr> final),
            (method, url) # (''GET'', loc) # map (\<lambda>x. (''GET'', the (redirectTarget x))) rs)"
proof -
  from assms(2-5) have target: "redirectTarget r = Some loc" by (simp add: redirectTarget_def)
  from handleResponse_chain [OF target assms(6,7)] assms(1)
  show ?thesis by (simp add: createHttpRequest_def comp_def)
qed

theorem every_redirect_is_followed_with_one_get_witness:
  "newSession [Reply seeOther, Reply sessionResource] =
     (Resolved (JObj [(''status'', JNum 0), (''sessionId'', JStr ''abc''), (''value'', JObj [])]),
      [(''POST'', ''http://localhost:4444/wd/hub/session''),
       (''GET'', ''http://localhost:4444/wd/hub/session/abc'')]) \<and>
   newSession [Reply seeOther, Reply movedOn] =
     (Pending,
      [(''POST'', ''http://localhost:4444/wd/hub/session''),
       (''GET'', ''http://localhost:4444/wd/hub/session/abc''),
       (''GET'', ''http://localhost:4444/wd/hub/session/abc/'')])"
proof -
  have url: "requestUrl ''http://localhost:4444/wd/hub/'' ''session'' None
               = Inr ''http://localhost:4444/wd/hub/session''"
    by (simp add: requestUrl_def)
  have r: "300 \<le> status seeOther" "status seeOther < 400"
    "getHeader seeOther ''Location'' = Some ''http://localhost:4444/wd/hub/session/abc''"
    "''http://localhost:4444/wd/hub/session/abc'' \<noteq> []"
    by (simp_all add: seeOther_def)
  have final: "redirectTarget sessionResource = None"
    by (simp add: redirectTarget_def sessionResource_def jsonResponse_def)
  have moved: "redirectTarget movedOn = Some ''http://localhost:4444/wd/hub/session/abc/''"
    by (simp add: redirectTarget_def movedOn_def)
  have body: "normalizeResponse exampleStatusCodes
      \<lparr> reqUrl = ''http://localhost:4444/wd/hub/session'', reqMethod = ''POST'',
        reqData = JObj [(''desiredCapabilities'', JObj [])] \<rparr> sessionResource
     = Resolved (JObj [(''status'', JNum 0), (''sessionId'', JStr ''abc''), (''value'', JObj [])])"
    by (simp add: normalizeResponse_def parseBody_def isFailure_def sessionResource_def
        jsonResponse_def)
  from every_redirect_is_followed_with_one_get
    [OF url r, of "[]" "[Reply sessionResource]" exampleStatusCodes "''POST''"
       "JObj [(''desiredCapabilities'', JObj [])]"] final body
  have one: "newSession [Reply seeOther, Reply sessionResource] =
     (Resolved (JObj [(''status'', JNum 0), (''sessionId'', JStr ''abc''), (''value'', JObj [])]),
      [(''POST'', ''http://localhost:4444/wd/hub/session''),
       (''GET'', ''http://localhost:4444/wd/hub/session/abc'')])"
    by (simp add: newSession_def)
  from every_redirect_is_followed_with_one_get
    [OF url r, of "[movedOn]" "[]" exampleStatusCodes "''POST''"
       "JObj [(''desiredCapabilities'', JObj [])]"] moved
  have two: "newSession [Reply seeOther, Reply movedOn] =
     (Pending,
      [(''POST'', ''http://localhost:4444/wd/hub/session''),
       (''GET'', ''http://localhost:4444/wd/hub/session/abc''),
       (''GET'', ''http://localhost:4444/wd/hub/session/abc/'')])"
    by (simp add: newSession_def)
  from one two show ?thesis by simp
qed

lemma coercion_result_status:
  assumes "coerceUnsupportedClass (coerceNotImplemented r d) = Inr d'"
  shows "d' = d \<or> (getProp d ''status'' = JNum 13 \<and> getProp d' ''status'' = JNum 9)"
  using assms
  by (cases d) (auto simp: coerceNotImplemented_def coerceUnsupportedClass_def Let_def update_conv'
      split: if_splits sum.splits bool.splits)

text \<open>
  Claim C7: the coercion of HTTP 501 with envelope status 13 to status 9, and the
  coercion of envelope status 13 with an unsupported-operation or unsupported-command
  exception class to status 9, are idempotent: on an envelope whose status is already 9
  they change nothing, and applying both to their own result changes nothing.
\<close>

theorem coercions_keep_status_9:
  "(getProp d ''status'' = JNum 9 \<longrightarrow>
      coerceNotImplemented r d = d \<and> coerceUnsupportedClass d = Inr d \<and>
      coerceUnsupportedClass (coerceNotImplemented r d) = Inr d) \<and>
   (coerceUnsupportedClass (coerceNotImplemented r d) = Inr d' \<longrightarrow>
      coerceUnsupportedClass (coerceNotImplemented r d') = Inr d')"
proof (intro conjI impI)
  assume "getProp d ''status'' = JNum 9"
  then show "coerceNotImplemented r d = d" and "coerceUnsupportedClass d = Inr d"
    and "coerceUnsupportedClass (coerceNotImplemented r d) = Inr d"
    by (simp_all add: coerceNotImplemented_def coerceUnsupportedClass_def)
next
  assume a: "coerceUnsupportedClass (coerceNotImplemented r d) = Inr d'"
  from coercion_result_status [OF a]
  show "coerceUnsupportedClass (coerceNotImplemented r d') = Inr d'"
  proof
    assume "d' = d" with a show ?thesis by simp
  next
    assume "getProp d ''status'' = JNum 13 \<and> getProp d' ''status'' = JNum 9"
    then show ?thesis by (simp add: coerceNotImplemented_def coerceUnsupportedClass_def)
  qed
qed

theorem coercions_keep_status_9_witness:
  "getProp rewrittenEnvelope ''status'' = JNum 9 \<and>
   coerceNotImplemented notImplemented rewrittenEnvelope = rewrittenEnvelope \<and>
   coerceUnsupportedClass rewrittenEnvelope = Inr rewrittenEnvelope \<and>
   coerceUnsupportedClass (coerceNotImplemented notImplemented rewrittenEnvelope)
     = Inr rewrittenEnvelope"
proof -
  have s: "getProp rewrittenEnvelope ''status'' = JNum 9"
    by (simp add: rewrittenEnvelope_def)
  with coercions_keep_status_9 [of rewrittenEnvelope notImplemented rewrittenEnvelope]
  show ?thesis by blast
qed

section \<open>Negotiation: promises that only talk to the session\<close>

lemma quiet_command: "quiet (command n a)"
  by (simp add: quiet_def command_def split: list.splits)

lemma quiet_resolved: "quiet (resolved v)"
  by (simp add: quiet_def resolved_def)

lemma quiet_rejected: "quiet (rejected e)"
  by (simp add: quiet_def rejected_def)

lemma quiet_thenBoth:
  assumes "quiet p" and "\<And>v. quiet (f v)" and "\<And>e. quiet (g e)"
  shows "quiet (thenBoth p f g)"
proof -
  have "capabilities (snd (thenBoth p f g s)) = capabilities s \<and>
        events (snd (thenBoth p f g s)) = events s \<and>
        sessionId (snd (thenBoth p f g s)) = sessionId s \<and>
        arrival (snd (thenBoth p f g s)) = arrival s" for s
  proof (cases "p s")
    case (Pair r s')
    from assms(1) have p: "capabilities s' = capabilities s" "events s' = events s"
      "sessionId s' = sessionId s" "arrival s' = arrival s"
      using Pair by (auto simp: quiet_def dest: spec [of _ s])
    show ?thesis
    proof (cases r)
      case (Resolved v)
      with assms(2) [of v] p Pair show ?thesis
        by (auto simp: quiet_def thenBoth_def dest: spec [of _ s'])
    next
      case (Rejected e)
      with assms(3) [of e] p Pair show ?thesis
        by (auto simp: quiet_def thenBoth_def dest: spec [of _ s'])
    next
      case Pending
      with p Pair show ?thesis by (simp add: thenBoth_def)
    qed
  qed
  then show ?thesis by (simp add: quiet_def)
qed

lemma quiet_thenDo: "quiet p \<Longrightarrow> (\<And>v. quiet (f v)) \<Longrightarrow> quiet (thenDo p f)"
  by (simp add: thenDo_def quiet_thenBoth quiet_rejected)

lemma quiet_otherwise: "quiet p \<Longrightarrow> (\<And>e. quiet (g e)) \<Longrightarrow> quiet (otherwise p g)"
  by (simp add: otherwise_def quiet_thenBoth quiet_resolved)

lemma quiet_always: "quiet p \<Longrightarrow> quiet f \<Longrightarrow> quiet (always p f)"
  by (simp add: always_def quiet_thenBoth)

lemma quiet_handlers:
  "quiet (supported x)" "quiet (unsupported x)" "quiet (maybeSupported e)"
  "quiet (broken x)" "quiet (works x)"
  by (simp_all add: supported_def unsupported_def maybeSupported_def broken_def works_def
      quiet_resolved)

lemma quiet_member: "quiet (member v name)"
  by (cases v) (simp_all add: member_def quiet_resolved quiet_rejected)

lemma quiet_elementCommand: "quiet (elementCommand name element args)"
  by (cases element) (simp_all add: elementCommand_def quiet_command quiet_rejected)

lemma quiet_if: "quiet p \<Longrightarrow> quiet q \<Longrightarrow> quiet (if c then p else q)"
  by simp

lemma quiet_getPage: "quiet (getPage page)"
proof -
  have a: "quiet (command ''get'' [JStr (''data:text/html;charset=utf-8,'' @ encodeURIComponent page)])"
    by (rule quiet_command)
  have b: "quiet (thenDo (command ''get'' [JStr ''about:blank''])
          (\<lambda>_. command ''execute'' [JStr ''document.write(arguments[0]);'', JArr [JStr page]]))"
    by (intro quiet_thenDo quiet_command)
  show ?thesis
    unfolding quiet_def
  proof
    fix s show "capabilities (snd (getPage page s)) = capabilities s \<and>
         events (snd (getPage page s)) = events s \<and>
         sessionId (snd (getPage page s)) = sessionId s \<and>
         arrival (snd (getPage page s)) = arrival s"
      using a b by (simp add: getPage_def quiet_def)
  qed
qed

lemmas quiet_intros = quiet_command quiet_resolved quiet_rejected quiet_thenBoth quiet_thenDo
  quiet_otherwise quiet_always quiet_handlers quiet_member quiet_elementCommand quiet_getPage
  quiet_if

lemma quiet_countClicks: "quiet countClicks"
  unfolding countClicks_def sleep_def by (intro quiet_intros)

lemma retry_unfold:
  "retry s =
     (case countClicks s of
        (Resolved counter, s') \<Rightarrow>
          if counter = JNum 0 then
            (case retry s' of
               (Rejected e, s'') \<Rightarrow> broken e s''
             | r \<Rightarrow> r)
          else (Resolved (JBool (counter \<noteq> JNum 6)), s')
      | (Rejected e, s') \<Rightarrow> broken e s'
      | (Pending, s') \<Rightarrow> (Pending, s'))"
  by (rule retry.simps)

lemma retry_never_rejected: "fst (retry s) \<noteq> Rejected e"
proof (induction s rule: retry.induct)
  case (1 s)
  show ?case
  proof (cases "countClicks s")
    case (Pair r s')
    show ?thesis
    proof (cases r)
      case (Resolved counter)
      show ?thesis
      proof (cases "counter = JNum 0")
        case True
        from 1 [OF Pair [symmetric] Resolved True] have "fst (retry s') \<noteq> Rejected e" .
        then show ?thesis
          using Pair Resolved True
          by (subst retry.simps) (auto simp: broken_def supported_def resolved_def
              split: prod.splits settled.splits)
      next
        case False
        then show ?thesis using Pair Resolved by (subst retry.simps) simp
      qed
    next
      case (Rejected e')
      then show ?thesis using Pair
        by (subst retry.simps) (simp add: broken_def supported_def resolved_def)
    next
      case Pending
      then show ?thesis using Pair by (subst retry.simps) simp
    qed
  qed
qed

lemma retry_zero: 
  assumes "countClicks s = (Resolved (JNum 0), s')"
  shows "retry s = retry s'"
proof -
  have "fst (retry s') \<noteq> Rejected e" for e by (rule retry_never_rejected)
  then have "(case retry s' of (Rejected e, s'') \<Rightarrow> broken e s'' | r \<Rightarrow> r) = retry s'"
    by (cases "retry s'") (auto split: settled.splits)
  with assms show ?thesis by (subst retry.simps) simp
qed

lemma retry_verdict:
  "retry s = (Resolved v, t) \<Longrightarrow>
     \<exists>n s1. afterZeroReadings n s = Some s1 \<and>
       ((\<exists>c. countClicks s1 = (Resolved c, t) \<and> c \<noteq> JNum 0 \<and> v = JBool (c \<noteq> JNum 6)) \<or>
        (\<exists>e. countClicks s1 = (Rejected e, t) \<and> v = JBool True))"
proof (induction s rule: retry.induct)
  case (1 s)
  show ?case
  proof (cases "countClicks s")
    case (Pair r s')
    show ?thesis
    proof (cases r)
      case (Resolved counter)
      show ?thesis
      proof (cases "counter = JNum 0")
        case True
        with Pair Resolved have "retry s = retry s'" by (simp add: retry_zero)
        with "1.prems" have "retry s' = (Resolved v, t)" by simp
        from "1.IH" [OF Pair [symmetric] Resolved True this]
        obtain n s1 where n: "afterZeroReadings n s' = Some s1"
          and v: "(\<exists>c. countClicks s1 = (Resolved c, t) \<and> c \<noteq> JNum 0 \<and> v = JBool (c \<noteq> JNum 6)) \<or>
                  (\<exists>e. countClicks s1 = (Rejected e, t) \<and> v = JBool True)"
          by blast
        from n Pair Resolved True have "afterZeroReadings (Suc n) s = Some s1" by simp
        with v show ?thesis by blast
      next
        case False
        with "1.prems" Pair Resolved have "v = JBool (counter \<noteq> JNum 6)" and "t = s'"
          by (simp_all add: retry.simps)
        with Pair Resolved False have
          "afterZeroReadings 0 s = Some s \<and> countClicks s = (Resolved counter, t) \<and>
           counter \<noteq> JNum 0 \<and> v = JBool (counter \<noteq> JNum 6)" by simp
        then show ?thesis by blast
      qed
    next
      case (Rejected e)
      with "1.prems" Pair have "v = JBool True" and "t = s'"
        by (simp_all add: retry.simps broken_def supported_def resolved_def)
      with Pair Rejected have
        "afterZeroReadings 0 s = Some s \<and> countClicks s = (Rejected e, t) \<and> v = JBool True"
        by simp
      then show ?thesis by blast
    next
      case Pending
      with "1.prems" Pair show ?thesis by (simp add: retry.simps)
    qed
  qed
qed


lemma quiet_state_fun:
  assumes "\<And>s. capabilities (snd (p s)) = capabilities s \<and> events (snd (p s)) = events s \<and>
          sessionId (snd (p s)) = sessionId s \<and> arrival (snd (p s)) = arrival s"
  shows "quiet p"
  using assms by (simp add: quiet_def)

lemma quietD:
  "quiet p \<Longrightarrow> capabilities (snd (p s)) = capabilities s \<and> events (snd (p s)) = events s \<and>
          sessionId (snd (p s)) = sessionId s \<and> arrival (snd (p s)) = arrival s"
  by (simp add: quiet_def)

lemma quiet_retry: "quiet retry"
proof (rule quiet_state_fun)
  fix s
  show "capabilities (snd (retry s)) = capabilities s \<and> events (snd (retry s)) = events s \<and>
          sessionId (snd (retry s)) = sessionId s \<and> arrival (snd (retry s)) = arrival s"
  proof (induction s rule: retry.induct)
    case (1 s)
    obtain r s' where cc: "countClicks s = (r, s')" by (cases "countClicks s")
    from quietD [OF quiet_countClicks, of s] cc
    have fr: "capabilities s' = capabilities s \<and> events s' = events s \<and>
          sessionId s' = sessionId s \<and> arrival s' = arrival s" by simp
    show ?case
    proof (cases r)
      case (Resolved counter)
      show ?thesis
      proof (cases "counter = JNum 0")
        case True
        with cc Resolved have "retry s = retry s'" by (simp add: retry_zero)
        with 1 [OF cc [symmetric] Resolved True] fr show ?thesis by simp
      next
        case False
        with cc Resolved fr show ?thesis by (simp add: retry.simps)
      qed
    next
      case (Rejected e)
      with cc fr show ?thesis
        by (simp add: retry.simps broken_def supported_def resolved_def)
    next
      case Pending
      with cc fr show ?thesis by (simp add: retry.simps)
    qed
  qed
qed

lemma quiet_features:
  "quiet rotatable" "quiet locationContextEnabled" "quiet webStorageEnabled"
  "quiet applicationCacheEnabled" "quiet takesScreenshot" "quiet supportsExecuteAsync"
  "quiet mouseEnabled" "quiet touchEnabled" "quiet dynamicViewport"
  "quiet supportsNavigationDataUris" "quiet supportsCssTransforms"
  unfolding rotatable_def locationContextEnabled_def webStorageEnabled_def
    applicationCacheEnabled_def takesScreenshot_def supportsExecuteAsync_def mouseEnabled_def
    touchEnabled_def dynamicViewport_def supportsNavigationDataUris_def supportsCssTransforms_def
  by (intro quiet_intros)+

lemma quiet_brokenDeleteCookie: "quiet brokenDeleteCookie"
proof (rule quiet_state_fun)
  fix s
  let ?p = "thenDo
       (otherwise
          (thenDo
             (thenDo
                (thenDo
                   (thenDo
                      (thenDo
                         (command ''get''
                            [if truthy (capability s ''initialBrowserUrl'')
                             then capability s ''initialBrowserUrl'' else JStr ''about:blank''])
                         (\<lambda>_. command ''clearCookies'' []))
                      (\<lambda>_. command ''setCookie''
                              [JObj [(''name'', JStr ''foo''), (''value'', JStr ''foo'')]]))
                   (\<lambda>_. command ''deleteCookie'' [JStr ''foo'']))
                (\<lambda>_. command ''getCookies'' []))
             (\<lambda>cookies. thenDo (member cookies ''length'')
                (\<lambda>n. resolved (JBool (truthy n)))))
          (\<lambda>error. resolved (JBool (\<not> containsText (errMessage error) ''bug.unknown protocol''))))
       (\<lambda>isBroken. always (command ''clearCookies'' []) (resolved isBroken))"
  have "quiet ?p" by (intro quiet_intros)
  from quietD [OF this, of s]
  show "capabilities (snd (brokenDeleteCookie s)) = capabilities s \<and>
        events (snd (brokenDeleteCookie s)) = events s \<and>
        sessionId (snd (brokenDeleteCookie s)) = sessionId s \<and>
        arrival (snd (brokenDeleteCookie s)) = arrival s"
    by (simp add: brokenDeleteCookie_def)
qed

lemma quiet_fixedLogTypes: "quiet fixedLogTypes"
proof -
  have "quiet (\<lambda>s. if capability s ''browserName'' = JStr ''selendroid'' then
            (case errResponseText error of
               None \<Rightarrow> rejected thrownTypeError s
             | Some t \<Rightarrow> resolved (JArr (if t = [] then [JStr ''logcat''] else [])) s)
          else resolved (JArr []) s)" for error
    by (rule quiet_state_fun) (simp add: rejected_def resolved_def split: option.splits)
  then show ?thesis
    unfolding fixedLogTypes_def by (intro quiet_intros)
qed

lemma quiet_brokenRefresh: "quiet brokenRefresh"
proof -
  have "quiet (\<lambda>s. case command ''refresh'' [] s of
                    (Resolved v, s') \<Rightarrow> (Resolved (JBool False), s')
                  | (Rejected e, s') \<Rightarrow> (Resolved (JBool True), s')
                  | (Pending, s') \<Rightarrow> (Resolved (JBool True), s'))"
    by (rule quiet_state_fun) (simp add: command_def split: list.splits settled.splits)
  then show ?thesis
    unfolding brokenRefresh_def by (intro quiet_intros)
qed

lemma quiet_defects:
  "quiet brokenHtmlTagName" "quiet brokenNullGetAttribute" "quiet brokenExecuteElementReturn"
  "quiet brokenElementDisplayedOpacity" "quiet brokenLongTap" "quiet brokenMoveFinger"
  "quiet brokenTouchScroll" "quiet brokenFlickFinger" "quiet brokenElementPosition"
  "quiet brokenCssTransformedSize"
  unfolding brokenHtmlTagName_def brokenNullGetAttribute_def brokenExecuteElementReturn_def
    brokenElementDisplayedOpacity_def brokenLongTap_def brokenMoveFinger_def
    brokenTouchScroll_def brokenFlickFinger_def brokenElementPosition_def
    brokenCssTransformedSize_def
  by (intro quiet_intros)+

lemmas quiet_probes = quiet_features quiet_defects quiet_brokenDeleteCookie quiet_fixedLogTypes
  quiet_brokenRefresh quiet_retry

lemma countClicks_round:
  assumes "capability s ''supportsNavigationDataUris'' \<noteq> JBool False"
    and "replies s = roundReplies counter @ rest"
  shows "countClicks s = (Resolved counter, s\<lparr> replies := rest, commands := commands s @ roundCommands \<rparr>)"
  using assms
  by (simp add: countClicks_def thenDo_def thenBoth_def command_def getPage_def
      okReply_def sleep_def resolved_def rejected_def roundCommands_def roundReplies_def)

lemma retry_rounds:
  "afterZeroReadings n s = Some s1 \<Longrightarrow> retry s = retry s1"
proof (induction n arbitrary: s)
  case 0
  then show ?case by simp
next
  case (Suc n)
  obtain r s' where c: "countClicks s = (r, s')" by (cases "countClicks s")
  with Suc.prems have r: "r = Resolved (JNum 0)" and rest: "afterZeroReadings n s' = Some s1"
    by (auto split: settled.splits if_splits)
  from c r have "retry s = retry s'" by (simp add: retry_zero)
  with Suc.IH [OF rest] show ?case by simp
qed

lemma retry_nonzero:
  assumes "countClicks s = (Resolved c, s')" and "c \<noteq> JNum 0"
  shows "retry s = (Resolved (JBool (c \<noteq> JNum 6)), s')"
  using assms by (subst retry.simps) simp

lemma retry_failed:
  assumes "countClicks s = (Rejected e, s')"
  shows "retry s = (Resolved (JBool True), s')"
  using assms by (subst retry.simps) (simp add: broken_def supported_def resolved_def)

lemma retry_pending:
  assumes "countClicks s = (Pending, s')"
  shows "retry s = (Pending, s')"
  using assms by (subst retry.simps) simp

text \<open>
  Claim C8: whenever the double-click probe reads an event counter of exactly 0, it runs
  its whole navigate-and-measure sequence again instead of concluding; a verdict comes
  only from a counter that is not 0 (broken unless the counter is 6) or from a failed
  operation (broken). Here \<open>countClicks\<close> is one round of the sequence. A round that
  reads 0 makes \<open>retry\<close> continue as \<open>retry\<close> on the state after that round, and so
  does any number of such rounds; a round that reads a counter other than 0 ends
  \<open>retry\<close> with the verdict broken unless the counter is 6; a round in which an
  operation fails ends it with the verdict broken; a round that is never answered leaves
  it pending. \<open>retry\<close> is never rejected; and when it resolves, some number of rounds
  that read 0 is followed by a round that reads something else, or that fails.
\<close>

theorem double_click_retries_on_zero:
  "(countClicks s = (Resolved (JNum 0), s') \<longrightarrow> retry s = retry s') \<and>
   (\<forall>c. countClicks s = (Resolved c, s') \<and> c \<noteq> JNum 0 \<longrightarrow>
        retry s = (Resolved (JBool (c \<noteq> JNum 6)), s')) \<and>
   (\<forall>e. countClicks s = (Rejected e, s') \<longrightarrow> retry s = (Resolved (JBool True), s')) \<and>
   (countClicks s = (Pending, s') \<longrightarrow> retry s = (Pending, s')) \<and>
   (\<forall>n s1. afterZeroReadings n s = Some s1 \<longrightarrow> retry s = retry s1) \<and>
   (\<forall>e. fst (retry s) \<noteq> Rejected e) \<and>
   (retry s = (Resolved v, t) \<longrightarrow>
      (\<exists>n s1. afterZeroReadings n s = Some s1 \<and>
         ((\<exists>c. countClicks s1 = (Resolved c, t) \<and> c \<noteq> JNum 0 \<and> v = JBool (c \<noteq> JNum 6)) \<or>
          (\<exists>e. countClicks s1 = (Rejected e, t) \<and> v = JBool True))))"
proof (intro conjI allI impI)
  show "retry s = retry s'" if "countClicks s = (Resolved (JNum 0), s')"
    using that by (rule retry_zero)
  show "retry s = (Resolved (JBool (c \<noteq> JNum 6)), s')"
    if "countClicks s = (Resolved c, s') \<and> c \<noteq> JNum 0" for c
    using that by (simp add: retry_nonzero)
  show "retry s = (Resolved (JBool True), s')" if "countClicks s = (Rejected e, s')" for e
    using that by (rule retry_failed)
  show "retry s = (Pending, s')" if "countClicks s = (Pending, s')"
    using that by (rule retry_pending)
  show "retry s = retry s1" if "afterZeroReadings n s = Some s1" for n s1
    using that by (rule retry_rounds)
  show "fst (retry s) \<noteq> Rejected e" for e
    by (rule retry_never_rejected)
  show "\<exists>n s1. afterZeroReadings n s = Some s1 \<and>
         ((\<exists>c. countClicks s1 = (Resolved c, t) \<and> c \<noteq> JNum 0 \<and> v = JBool (c \<noteq> JNum 6)) \<or>
          (\<exists>e. countClicks s1 = (Rejected e, t) \<and> v = JBool True))"
    if "retry s = (Resolved v, t)"
    using that by (rule retry_verdict)
qed

theorem double_click_retries_on_zero_witness:
  "countClicks (sessionWith firefox (roundReplies (JNum 0) @ roundReplies (JNum 6)))
     = (Resolved (JNum 0),
        (sessionWith firefox (roundReplies (JNum 6)))\<lparr> commands := roundCommands \<rparr>) \<and>
   retry (sessionWith firefox (roundReplies (JNum 0) @ roundReplies (JNum 6)))
     = (Resolved (JBool False),
        (sessionWith firefox [])\<lparr> commands := roundCommands @ roundCommands \<rparr>) \<and>
   retry (sessionWith firefox (roundReplies (JNum 0) @ roundReplies (JNum 2)))
     = (Resolved (JBool True),
        (sessionWith firefox [])\<lparr> commands := roundCommands @ roundCommands \<rparr>) \<and>
   retry (sessionWith firefox (roundReplies (JNum 0) @ [Rejected navigationError]))
     = (Resolved (JBool True),
        (sessionWith firefox [])\<lparr> commands := roundCommands @ [hd roundCommands] \<rparr>) \<and>
   retry (sessionWith firefox (roundReplies (JNum 0)))
     = (Pending,
        (sessionWith firefox [])\<lparr> commands := roundCommands @ [hd roundCommands] \<rparr>)"
proof -
  let ?mid6 = "(sessionWith firefox (roundReplies (JNum 6)))\<lparr> commands := roundCommands \<rparr>"
  let ?mid2 = "(sessionWith firefox (roundReplies (JNum 2)))\<lparr> commands := roundCommands \<rparr>"
  let ?midFail = "(sessionWith firefox [Rejected navigationError])\<lparr> commands := roundCommands \<rparr>"
  let ?midNone = "(sessionWith firefox [])\<lparr> commands := roundCommands \<rparr>"
  let ?fin = "(sessionWith firefox [])\<lparr> commands := roundCommands @ roundCommands \<rparr>"
  let ?finShort = "(sessionWith firefox [])\<lparr> commands := roundCommands @ [hd roundCommands] \<rparr>"
  have first: "countClicks (sessionWith firefox (roundReplies (JNum 0) @ rest))
      = (Resolved (JNum 0), (sessionWith firefox rest)\<lparr> commands := roundCommands \<rparr>)" for rest
    by (subst countClicks_round [where counter = "JNum 0" and rest = rest])
      (simp_all add: sessionWith_def capability_def firefox_def)
  have c6: "countClicks ?mid6 = (Resolved (JNum 6), ?fin)"
    by (subst countClicks_round [where counter = "JNum 6" and rest = "[]"])
      (simp_all add: sessionWith_def capability_def firefox_def)
  have c2: "countClicks ?mid2 = (Resolved (JNum 2), ?fin)"
    by (subst countClicks_round [where counter = "JNum 2" and rest = "[]"])
      (simp_all add: sessionWith_def capability_def firefox_def)
  have cFail: "countClicks ?midFail = (Rejected navigationError, ?finShort)"
    by (simp add: countClicks_def thenDo_def thenBoth_def command_def getPage_def rejected_def
        roundCommands_def sessionWith_def capability_def firefox_def)
  have cNone: "countClicks ?midNone = (Pending, ?finShort)"
    by (simp add: countClicks_def thenDo_def thenBoth_def command_def getPage_def rejected_def
        roundCommands_def sessionWith_def capability_def firefox_def)
  note zero = double_click_retries_on_zero [THEN conjunct1, rule_format, OF first]
  have r6: "retry ?mid6 = (Resolved (JBool False), ?fin)"
    using double_click_retries_on_zero [of ?mid6 ?fin] c6 by simp
  have r2: "retry ?mid2 = (Resolved (JBool True), ?fin)"
    using double_click_retries_on_zero [of ?mid2 ?fin] c2 by simp
  have rFail: "retry ?midFail = (Resolved (JBool True), ?finShort)"
    using double_click_retries_on_zero [of ?midFail ?finShort] cFail by simp
  have rNone: "retry ?midNone = (Pending, ?finShort)"
    using double_click_retries_on_zero [of ?midNone ?finShort] cNone by simp
  from first [of "roundReplies (JNum 6)"] zero [of "roundReplies (JNum 6)"] r6
    zero [of "roundReplies (JNum 2)"] r2 zero [of "[Rejected navigationError]"] rFail
    zero [of "[]"] rNone
  show ?thesis by simp
qed

section \<open>Merging: properties\<close>

lemma writes_append [simp]: "writes (xs @ ys) = writes xs @ writes ys"
  by (induction xs rule: writes.induct) simp_all

lemma deferredStarts_append [simp]: "deferredStarts (xs @ ys) = deferredStarts xs @ deferredStarts ys"
  by (induction xs rule: deferredStarts.induct) simp_all

lemma applyWrites_append [simp]: "applyWrites (xs @ ys) c = applyWrites ys (applyWrites xs c)"
  by (simp add: applyWrites_def)

lemma applyWrites_simps [simp]:
  "applyWrites [] c = c"
  "applyWrites (w # ws) c = applyWrites ws (AList.update (fst w) (snd w) c)"
  by (simp_all add: applyWrites_def)

lemma addCapabilities_append:
  assumes "\<forall>entry \<in> set xs. fst entry \<noteq> []"
  shows "addCapabilities (xs @ ys) s =
     (case addCapabilities xs s of
        (Resolved u, s1) \<Rightarrow> addCapabilities ys s1
      | (Rejected e, s1) \<Rightarrow> (Rejected e, s1)
      | (Pending, s1) \<Rightarrow> (Pending, s1))"
  using assms
proof (induction xs arbitrary: s)
  case Nil
  then show ?case by simp
next
  case (Cons x xs)
  obtain key v where x: "x = (key, v)" by (cases x)
  from Cons.prems x have key: "key \<noteq> []" by simp
  from Cons.prems have rest: "\<forall>entry \<in> set xs. fst entry \<noteq> []" by simp
  show ?case
  proof (cases v)
    case (Value a)
    with x key Cons.IH [OF rest] show ?thesis by simp
  next
    case (Thunk f)
    obtain r s' where f: "f (logEvent (DeferredStarted key) s) = (r, s')"
      by (cases "f (logEvent (DeferredStarted key) s)")
    show ?thesis
      using x key Thunk f Cons.IH [OF rest] by (cases r) simp_all
  qed
qed

lemma quietThunks_Cons:
  "quietThunks ((k, v) # xs) \<longleftrightarrow> (\<forall>f. v = Thunk f \<longrightarrow> quiet f) \<and> quietThunks xs"
  by (auto simp: quietThunks_def)

lemma quietThunks_append: "quietThunks (xs @ ys) \<longleftrightarrow> quietThunks xs \<and> quietThunks ys"
  by (auto simp: quietThunks_def)

lemma writeCapability_simps [simp]:
  "capabilities (writeCapability k v s) = AList.update k v (capabilities s)"
  "events (writeCapability k v s) = events s @ [Written k v]"
  "sessionId (writeCapability k v s) = sessionId s"
  "arrival (writeCapability k v s) = arrival s"
  "replies (writeCapability k v s) = replies s"
  "commands (writeCapability k v s) = commands s"
  by (simp_all add: writeCapability_def)

lemma logEvent_simps [simp]:
  "capabilities (logEvent ev s) = capabilities s"
  "events (logEvent ev s) = events s @ [ev]"
  "sessionId (logEvent ev s) = sessionId s"
  "arrival (logEvent ev s) = arrival s"
  "replies (logEvent ev s) = replies s"
  "commands (logEvent ev s) = commands s"
  by (simp_all add: logEvent_def)

lemma quiet_run:
  assumes "quiet f" and "f s = (r, s')"
  shows "capabilities s' = capabilities s" "events s' = events s"
    "sessionId s' = sessionId s" "arrival s' = arrival s"
  using quietD [OF assms(1), of s] assms(2) by simp_all

lemma addCapabilities_merged:
  assumes "quietThunks xs" and "\<forall>entry \<in> set xs. fst entry \<noteq> []"
    and "addCapabilities xs s = (Resolved u, s1)"
  shows "\<exists>ws. writes (events s1) = writes (events s) @ ws \<and>
           list_all2 (\<lambda>entry w. fst w = fst entry \<and> (\<forall>x. snd entry = Value x \<longrightarrow> snd w = x)) xs ws \<and>
           capabilities s1 = applyWrites ws (capabilities s)"
  using assms
proof (induction xs arbitrary: s)
  case Nil
  then show ?case by simp
next
  case (Cons entry xs)
  obtain key v where entry: "entry = (key, v)" by (cases entry)
  from Cons.prems entry have key: "key \<noteq> []" by simp
  from Cons.prems have rest: "\<forall>entry \<in> set xs. fst entry \<noteq> []" by simp
  from Cons.prems entry have q: "quietThunks xs" by (simp add: quietThunks_Cons)
  show ?case
  proof (cases v)
    case (Value x)
    with Cons.prems entry key
    have "addCapabilities xs (writeCapability key x s) = (Resolved u, s1)" by simp
    from Cons.IH [OF q rest this] obtain ws where
      ws: "writes (events s1) = writes (events (writeCapability key x s)) @ ws"
        "list_all2 (\<lambda>entry w. fst w = fst entry \<and> (\<forall>x. snd entry = Value x \<longrightarrow> snd w = x)) xs ws"
        "capabilities s1 = applyWrites ws (capabilities (writeCapability key x s))"
      by blast
    have "writes (events s1) = writes (events s) @ ((key, x) # ws) \<and>
          list_all2 (\<lambda>entry w. fst w = fst entry \<and> (\<forall>x. snd entry = Value x \<longrightarrow> snd w = x))
            (entry # xs) ((key, x) # ws) \<and>
          capabilities s1 = applyWrites ((key, x) # ws) (capabilities s)"
      using ws entry Value by simp
    then show ?thesis by blast
  next
    case (Thunk f)
    obtain r s' where f: "f (logEvent (DeferredStarted key) s) = (r, s')"
      by (cases "f (logEvent (DeferredStarted key) s)")
    from Cons.prems entry Thunk have qf: "quiet f" by (simp add: quietThunks_Cons)
    note fr = quiet_run [OF qf f]
    from Cons.prems entry key Thunk f obtain x where r: "r = Resolved x"
      and run: "addCapabilities xs (writeCapability key x (logEvent (DeferredSettled key) s')) = (Resolved u, s1)"
      by (cases r) simp_all
    from Cons.IH [OF q rest run] obtain ws where
      ws: "writes (events s1) =
             writes (events (writeCapability key x (logEvent (DeferredSettled key) s'))) @ ws"
        "list_all2 (\<lambda>entry w. fst w = fst entry \<and> (\<forall>x. snd entry = Value x \<longrightarrow> snd w = x)) xs ws"
        "capabilities s1 =
           applyWrites ws (capabilities (writeCapability key x (logEvent (DeferredSettled key) s')))"
      by blast
    have "writes (events s1) = writes (events s) @ ((key, x) # ws) \<and>
          list_all2 (\<lambda>entry w. fst w = fst entry \<and> (\<forall>x. snd entry = Value x \<longrightarrow> snd w = x))
            (entry # xs) ((key, x) # ws) \<and>
          capabilities s1 = applyWrites ((key, x) # ws) (capabilities s)"
      using ws entry Thunk fr by simp
    then show ?thesis by blast
  qed
qed

text \<open>
  Claim C10: merging is not atomic. The values are written one key at a time, in the
  order of the keys of the object; when the function of a key fails, the merge is
  rejected, the values of the keys in front of it stay written, and neither the failing
  key nor any key after it is written. Here \<open>before\<close> are the entries in front of
  the failing function \<open>f\<close> (they are merged, which leads to the state \<open>s1\<close>),
  and the writes \<open>ws\<close> that the whole merge adds are those of \<open>before\<close>, key by
  key; the capabilities at the end are these writes applied to the capabilities at the
  start.
\<close>

theorem merge_stops_at_failing_function:
  assumes "quietThunks (before @ (key, Thunk f) # after)"
    and "\<forall>entry \<in> set before. fst entry \<noteq> []" and "key \<noteq> []"
    and "addCapabilities before s = (Resolved u, s1)"
    and "f (logEvent (DeferredStarted key) s1) = (Rejected e, s2)"
  shows "\<exists>t ws. addCapabilities (before @ (key, Thunk f) # after) s = (Rejected e, t) \<and>
           writes (events t) = writes (events s) @ ws \<and>
           list_all2 (\<lambda>entry w. fst w = fst entry \<and> (\<forall>x. snd entry = Value x \<longrightarrow> snd w = x))
             before ws \<and>
           capabilities t = applyWrites ws (capabilities s)"
proof -
  from assms(1) have qb: "quietThunks before" and qf: "quiet f"
    by (simp_all add: quietThunks_append quietThunks_Cons)
  from addCapabilities_merged [OF qb assms(2) assms(4)] obtain ws where
    ws: "writes (events s1) = writes (events s) @ ws"
      "list_all2 (\<lambda>entry w. fst w = fst entry \<and> (\<forall>x. snd entry = Value x \<longrightarrow> snd w = x)) before ws"
      "capabilities s1 = applyWrites ws (capabilities s)"
    by blast
  note fr = quiet_run [OF qf assms(5)]
  have run: "addCapabilities (before @ (key, Thunk f) # after) s =
          (Rejected e, logEvent (DeferredSettled key) s2)"
    using assms(3,4,5) by (simp add: addCapabilities_append [OF assms(2)])
  have "writes (events (logEvent (DeferredSettled key) s2)) = writes (events s) @ ws \<and>
        capabilities (logEvent (DeferredSettled key) s2) = applyWrites ws (capabilities s)"
    using ws fr by simp
  with run ws(2) show ?thesis by blast
qed

theorem merge_stops_at_failing_function_witness:
  "addCapabilities
     [(''takesScreenshot'', Value (JBool True)),
      (''supportsNavigationDataUris'', Thunk (command ''getPageTitle'' [])),
      (''supportsCssTransforms'', Thunk (command ''execute'' [])),
      (''mouseEnabled'', Value (JBool True))]
     (sessionWith firefox [Resolved (JStr ''a''), Rejected navigationError])
   = (Rejected navigationError,
      \<lparr> sessionId = ''session-1'',
        capabilities = [(''browserName'', JStr ''firefox''), (''takesScreenshot'', JBool True),
                        (''supportsNavigationDataUris'', JStr ''a'')],
        replies = [], arrival = [],
        commands = [(''getPageTitle'', []), (''execute'', [])],
        events = [Written ''takesScreenshot'' (JBool True),
                  DeferredStarted ''supportsNavigationDataUris'',
                  DeferredSettled ''supportsNavigationDataUris'',
                  Written ''supportsNavigationDataUris'' (JStr ''a''),
                  DeferredStarted ''supportsCssTransforms'',
                  DeferredSettled ''supportsCssTransforms''] \<rparr>) \<and>
   (\<exists>t ws. addCapabilities
              ([(''takesScreenshot'', Value (JBool True)),
                (''supportsNavigationDataUris'', Thunk (command ''getPageTitle'' []))]
               @ (''supportsCssTransforms'', Thunk (command ''execute'' []))
               # [(''mouseEnabled'', Value (JBool True))])
              (sessionWith firefox [Resolved (JStr ''a''), Rejected navigationError])
            = (Rejected navigationError, t) \<and>
      writes (events t)
        = writes (events (sessionWith firefox [Resolved (JStr ''a''), Rejected navigationError])) @ ws \<and>
      list_all2 (\<lambda>entry w. fst w = fst entry \<and> (\<forall>x. snd entry = Value x \<longrightarrow> snd w = x))
        [(''takesScreenshot'', Value (JBool True)),
         (''supportsNavigationDataUris'', Thunk (command ''getPageTitle'' []))] ws \<and>
      capabilities t
        = applyWrites ws
            (capabilities (sessionWith firefox [Resolved (JStr ''a''), Rejected navigationError])))"
proof
  show "addCapabilities
     [(''takesScreenshot'', Value (JBool True)),
      (''supportsNavigationDataUris'', Thunk (command ''getPageTitle'' [])),
      (''supportsCssTransforms'', Thunk (command ''execute'' [])),
      (''mouseEnabled'', Value (JBool True))]
     (sessionWith firefox [Resolved (JStr ''a''), Rejected navigationError])
   = (Rejected navigationError,
      \<lparr> sessionId = ''session-1'',
        capabilities = [(''browserName'', JStr ''firefox''), (''takesScreenshot'', JBool True),
                        (''supportsNavigationDataUris'', JStr ''a'')],
        replies = [], arrival = [],
        commands = [(''getPageTitle'', []), (''execute'', [])],
        events = [Written ''takesScreenshot'' (JBool True),
                  DeferredStarted ''supportsNavigationDataUris'',
                  DeferredSettled ''supportsNavigationDataUris'',
                  Written ''supportsNavigationDataUris'' (JStr ''a''),
                  DeferredStarted ''supportsCssTransforms'',
                  DeferredSettled ''supportsCssTransforms''] \<rparr>)"
    by (simp add: sessionWith_def firefox_def command_def writeCapability_def logEvent_def)
next
  let ?start = "sessionWith firefox [Resolved (JStr ''a''), Rejected navigationError]"
  let ?before = "[(''takesScreenshot'', Value (JBool True)),
                (''supportsNavigationDataUris'', Thunk (command ''getPageTitle'' []))]"
  let ?mid = "\<lparr> sessionId = ''session-1'',
        capabilities = [(''browserName'', JStr ''firefox''), (''takesScreenshot'', JBool True),
                        (''supportsNavigationDataUris'', JStr ''a'')],
        replies = [Rejected navigationError], arrival = [],
        commands = [(''getPageTitle'', [])],
        events = [Written ''takesScreenshot'' (JBool True),
                  DeferredStarted ''supportsNavigationDataUris'',
                  DeferredSettled ''supportsNavigationDataUris'',
                  Written ''supportsNavigationDataUris'' (JStr ''a'')] \<rparr>"
  have q: "quietThunks (?before @ (''supportsCssTransforms'', Thunk (command ''execute'' []))
               # [(''mouseEnabled'', Value (JBool True))])"
    by (auto simp: quietThunks_def quiet_command)
  have k: "\<forall>entry \<in> set ?before. fst entry \<noteq> []" by simp
  have b: "addCapabilities ?before ?start = (Resolved (), ?mid)"
    by (simp add: sessionWith_def firefox_def command_def writeCapability_def logEvent_def)
  have f: "command ''execute'' [] (logEvent (DeferredStarted ''supportsCssTransforms'') ?mid)
     = (Rejected navigationError,
        (logEvent (DeferredStarted ''supportsCssTransforms'') ?mid)
          \<lparr> replies := [], commands := [(''getPageTitle'', []), (''execute'', [])] \<rparr>)"
    by (simp add: command_def logEvent_def)
  from merge_stops_at_failing_function [OF q k _ b f]
  show "\<exists>t ws. addCapabilities
              (?before @ (''supportsCssTransforms'', Thunk (command ''execute'' []))
               # [(''mouseEnabled'', Value (JBool True))]) ?start
            = (Rejected navigationError, t) \<and>
      writes (events t) = writes (events ?start) @ ws \<and>
      list_all2 (\<lambda>entry w. fst w = fst entry \<and> (\<forall>x. snd entry = Value x \<longrightarrow> snd w = x))
        ?before ws \<and>
      capabilities t = applyWrites ws (capabilities ?start)"
    by simp
qed

section \<open>The order of events in a batch\<close>

lemma oneAtATime_written: "oneAtATime (Written k v # evs) = oneAtATime evs"
  by simp

lemma addCapabilities_shape:
  assumes "quietThunks batch" and "addCapabilities batch s = (r, t)"
  shows "\<exists>merge. events t = events s @ merge \<and> oneAtATime merge \<and>
           prefix (deferredStarts merge) (thunkKeys batch) \<and>
           sessionId t = sessionId s \<and> arrival t = arrival s"
  using assms
proof (induction batch arbitrary: s)
  case Nil
  then have "events t = events s @ [] \<and> oneAtATime [] \<and> prefix (deferredStarts []) (thunkKeys [])
     \<and> sessionId t = sessionId s \<and> arrival t = arrival s" by auto
  then show ?case by blast
next
  case (Cons entry batch)
  obtain key v where entry: "entry = (key, v)" by (cases entry)
  from Cons.prems entry have q: "quietThunks batch" by (simp add: quietThunks_Cons)
  show ?case
  proof (cases "key = []")
    case True
    with Cons.prems entry
    have "events t = events s @ [] \<and> oneAtATime [] \<and>
          prefix (deferredStarts []) (thunkKeys (entry # batch)) \<and>
          sessionId t = sessionId s \<and> arrival t = arrival s" by auto
    then show ?thesis by blast
  next
    case key: False
    show ?thesis
    proof (cases v)
      case (Value x)
      with Cons.prems entry key
      have "addCapabilities batch (writeCapability key x s) = (r, t)" by simp
      from Cons.IH [OF q this] obtain merge where
        m: "events t = events (writeCapability key x s) @ merge" "oneAtATime merge"
          "prefix (deferredStarts merge) (thunkKeys batch)"
          "sessionId t = sessionId s" "arrival t = arrival s"
        by auto
      have "events t = events s @ (Written key x # merge) \<and> oneAtATime (Written key x # merge) \<and>
            prefix (deferredStarts (Written key x # merge)) (thunkKeys (entry # batch)) \<and>
            sessionId t = sessionId s \<and> arrival t = arrival s"
        using m entry Value by simp
      then show ?thesis by blast
    next
      case (Thunk f)
      obtain r' s' where f: "f (logEvent (DeferredStarted key) s) = (r', s')"
        by (cases "f (logEvent (DeferredStarted key) s)")
      from Cons.prems entry Thunk have qf: "quiet f" by (simp add: quietThunks_Cons)
      note fr = quiet_run [OF qf f]
      show ?thesis
      proof (cases r')
        case (Resolved x)
        with Cons.prems entry key Thunk f
        have "addCapabilities batch (writeCapability key x (logEvent (DeferredSettled key) s')) = (r, t)"
          by simp
        from Cons.IH [OF q this] obtain merge where
          m: "events t = events (writeCapability key x (logEvent (DeferredSettled key) s')) @ merge"
            "oneAtATime merge" "prefix (deferredStarts merge) (thunkKeys batch)"
            "sessionId t = sessionId (writeCapability key x (logEvent (DeferredSettled key) s'))"
            "arrival t = arrival (writeCapability key x (logEvent (DeferredSettled key) s'))"
          by auto
        let ?m = "DeferredStarted key # DeferredSettled key # Written key x # merge"
        have "events t = events s @ ?m \<and> oneAtATime ?m \<and>
            prefix (deferredStarts ?m) (thunkKeys (entry # batch)) \<and>
            sessionId t = sessionId s \<and> arrival t = arrival s"
          using m entry Thunk fr by simp
        then show ?thesis by blast
      next
        case (Rejected e)
        with Cons.prems entry key Thunk f
        have t: "t = logEvent (DeferredSettled key) s'" by simp
        let ?m = "[DeferredStarted key, DeferredSettled key]"
        have "events t = events s @ ?m \<and> oneAtATime ?m \<and>
            prefix (deferredStarts ?m) (thunkKeys (entry # batch)) \<and>
            sessionId t = sessionId s \<and> arrival t = arrival s"
          using t entry Thunk fr by simp
        then show ?thesis by blast
      next
        case Pending
        with Cons.prems entry key Thunk f have t: "t = s'" by simp
        let ?m = "[DeferredStarted key]"
        have "events t = events s @ ?m \<and> oneAtATime ?m \<and>
            prefix (deferredStarts ?m) (thunkKeys (entry # batch)) \<and>
            sessionId t = sessionId s \<and> arrival t = arrival s"
          using t entry Thunk fr by simp
        then show ?thesis by blast
      qed
    qed
  qed
qed

lemma thunkKeys_append [simp]: "thunkKeys (xs @ ys) = thunkKeys xs @ thunkKeys ys"
  by (induction xs rule: thunkKeys.induct) simp_all

lemma settleAll_shape:
  assumes "settleAll entries results s = (r, t)"
  shows "\<exists>settled. events t = events s @ map ImmediateSettled settled \<and>
           capabilities t = capabilities s \<and> sessionId t = sessionId s \<and>
           arrival t = arrival s \<and> replies t = replies s \<and> commands t = commands s \<and>
           r \<noteq> Pending \<and>
           (\<forall>res. r = Resolved res \<longrightarrow>
              thunkKeys res = thunkKeys results \<and>
              (quietThunks results \<longrightarrow> quietThunks res) \<and>
              (\<forall>entry \<in> set entries. snd entry \<noteq> Pending \<longrightarrow> fst entry \<in> set settled))"
  using assms
proof (induction entries arbitrary: results s)
  case Nil
  then have "events t = events s @ map ImmediateSettled [] \<and>
           capabilities t = capabilities s \<and> sessionId t = sessionId s \<and>
           arrival t = arrival s \<and> replies t = replies s \<and> commands t = commands s \<and>
           r \<noteq> Pending \<and>
           (\<forall>res. r = Resolved res \<longrightarrow>
              thunkKeys res = thunkKeys results \<and>
              (quietThunks results \<longrightarrow> quietThunks res) \<and>
              (\<forall>entry \<in> set []. snd entry \<noteq> Pending \<longrightarrow> fst entry \<in> set []))"
    by auto
  then show ?case by blast
next
  case (Cons entry entries)
  obtain k x where entry: "entry = (k, x)" by (cases entry)
  show ?case
  proof (cases x)
    case (Resolved v)
    with Cons.prems entry
    have "settleAll entries (results @ [(k, Value v)]) (logEvent (ImmediateSettled k) s) = (r, t)"
      by simp
    from Cons.IH [OF this] obtain settled where
      st: "events t = events (logEvent (ImmediateSettled k) s) @ map ImmediateSettled settled"
        "capabilities t = capabilities s" "sessionId t = sessionId s"
        "arrival t = arrival s" "replies t = replies s" "commands t = commands s"
        "r \<noteq> Pending"
        "\<forall>res. r = Resolved res \<longrightarrow>
              thunkKeys res = thunkKeys (results @ [(k, Value v)]) \<and>
              (quietThunks (results @ [(k, Value v)]) \<longrightarrow> quietThunks res) \<and>
              (\<forall>entry \<in> set entries. snd entry \<noteq> Pending \<longrightarrow> fst entry \<in> set settled)"
      by auto
    have "events t = events s @ map ImmediateSettled (k # settled) \<and>
           capabilities t = capabilities s \<and> sessionId t = sessionId s \<and>
           arrival t = arrival s \<and> replies t = replies s \<and> commands t = commands s \<and>
           r \<noteq> Pending \<and>
           (\<forall>res. r = Resolved res \<longrightarrow>
              thunkKeys res = thunkKeys results \<and>
              (quietThunks results \<longrightarrow> quietThunks res) \<and>
              (\<forall>entry \<in> set (entry # entries). snd entry \<noteq> Pending \<longrightarrow> fst entry \<in> set (k # settled)))"
      using st entry by (auto simp: quietThunks_append quietThunks_Cons quietThunks_def)
    then show ?thesis by blast
  next
    case (Rejected e)
    with Cons.prems entry have "r = Rejected e" and "t = logEvent (ImmediateSettled k) s" by simp_all
    then have "events t = events s @ map ImmediateSettled [k] \<and>
           capabilities t = capabilities s \<and> sessionId t = sessionId s \<and>
           arrival t = arrival s \<and> replies t = replies s \<and> commands t = commands s \<and>
           r \<noteq> Pending \<and>
           (\<forall>res. r = Resolved res \<longrightarrow>
              thunkKeys res = thunkKeys results \<and>
              (quietThunks results \<longrightarrow> quietThunks res) \<and>
              (\<forall>entry \<in> set (entry # entries). snd entry \<noteq> Pending \<longrightarrow> fst entry \<in> set [k]))"
      by simp
    then show ?thesis by blast
  next
    case Pending
    with Cons.prems entry have "settleAll entries results s = (r, t)" by simp
    from Cons.IH [OF this] obtain settled where
      "events t = events s @ map ImmediateSettled settled \<and>
           capabilities t = capabilities s \<and> sessionId t = sessionId s \<and>
           arrival t = arrival s \<and> replies t = replies s \<and> commands t = commands s \<and>
           r \<noteq> Pending \<and>
           (\<forall>res. r = Resolved res \<longrightarrow>
              thunkKeys res = thunkKeys results \<and>
              (quietThunks results \<longrightarrow> quietThunks res) \<and>
              (\<forall>entry \<in> set entries. snd entry \<noteq> Pending \<longrightarrow> fst entry \<in> set settled))"
      by blast
    then have "events t = events s @ map ImmediateSettled settled \<and>
           capabilities t = capabilities s \<and> sessionId t = sessionId s \<and>
           arrival t = arrival s \<and> replies t = replies s \<and> commands t = commands s \<and>
           r \<noteq> Pending \<and>
           (\<forall>res. r = Resolved res \<longrightarrow>
              thunkKeys res = thunkKeys results \<and>
              (quietThunks results \<longrightarrow> quietThunks res) \<and>
              (\<forall>entry \<in> set (entry # entries). snd entry \<noteq> Pending \<longrightarrow> fst entry \<in> set settled))"
      using entry Pending by simp
    then show ?thesis by blast
  qed
qed

lemma set_settleOrder [simp]: "set (settleOrder arr entries) = set entries"
  by (auto simp: settleOrder_def)

lemma thunkKeys_syncEntries [simp]: "thunkKeys (syncEntries tested) = functionKeys tested"
  by (induction tested rule: syncEntries.induct) simp_all

lemma quietThunks_syncEntries:
  "(\<forall>k f. (k, Function f) \<in> set tested \<longrightarrow> quiet f) \<Longrightarrow> quietThunks (syncEntries tested)"
  by (induction tested rule: syncEntries.induct) (auto simp: quietThunks_def)

lemma whenAll_shape:
  assumes "whenAll tested s = (r, t)" and "\<forall>k f. (k, Function f) \<in> set tested \<longrightarrow> quiet f"
  shows "\<exists>settled. events t = events s @ map ImmediateSettled settled \<and>
           capabilities t = capabilities s \<and> sessionId t = sessionId s \<and>
           arrival t = arrival s \<and> replies t = replies s \<and> commands t = commands s \<and>
           (\<forall>res. r = Resolved res \<longrightarrow>
              thunkKeys res = functionKeys tested \<and> quietThunks res \<and>
              set (map fst (inFlight tested)) \<subseteq> set settled)"
proof -
  obtain r' t' where sa: "settleAll (settleOrder (arrival s) (inFlight tested)) (syncEntries tested) s = (r', t')"
    by (cases "settleAll (settleOrder (arrival s) (inFlight tested)) (syncEntries tested) s")
  from settleAll_shape [OF sa] obtain settled where
    st: "events t' = events s @ map ImmediateSettled settled"
      "capabilities t' = capabilities s" "sessionId t' = sessionId s"
      "arrival t' = arrival s" "replies t' = replies s" "commands t' = commands s"
      "\<forall>res. r' = Resolved res \<longrightarrow>
              thunkKeys res = thunkKeys (syncEntries tested) \<and>
              (quietThunks (syncEntries tested) \<longrightarrow> quietThunks res) \<and>
              (\<forall>entry \<in> set (settleOrder (arrival s) (inFlight tested)).
                  snd entry \<noteq> Pending \<longrightarrow> fst entry \<in> set settled)"
    by auto
  from assms(1) sa have t: "t = t'"
    by (auto simp: whenAll_def split: settled.splits if_splits)
  have "\<forall>res. r = Resolved res \<longrightarrow>
              thunkKeys res = functionKeys tested \<and> quietThunks res \<and>
              set (map fst (inFlight tested)) \<subseteq> set settled"
  proof (intro allI impI)
    fix res assume r: "r = Resolved res"
    with assms(1) sa have r': "r' = Resolved res"
      and np: "\<not> list_ex (\<lambda>entry. snd entry = Pending) (inFlight tested)"
      by (auto simp: whenAll_def split: settled.splits if_splits)
    from st(7) r' have a: "thunkKeys res = functionKeys tested"
      and b: "quietThunks (syncEntries tested) \<longrightarrow> quietThunks res"
      and c: "\<forall>entry \<in> set (inFlight tested). snd entry \<noteq> Pending \<longrightarrow> fst entry \<in> set settled"
      by simp_all
    from np have "\<forall>entry \<in> set (inFlight tested). snd entry \<noteq> Pending"
      by (simp add: list_ex_iff)
    with c have "set (map fst (inFlight tested)) \<subseteq> set settled" by auto
    with a b quietThunks_syncEntries [OF assms(2)]
    show "thunkKeys res = functionKeys tested \<and> quietThunks res \<and>
              set (map fst (inFlight tested)) \<subseteq> set settled" by simp
  qed
  with st t show ?thesis by blast
qed

lemma inFlight_append [simp]: "inFlight (xs @ ys) = inFlight xs @ inFlight ys"
  by (induction xs rule: inFlight.induct) simp_all

lemma functionKeys_append [simp]: "functionKeys (xs @ ys) = functionKeys xs @ functionKeys ys"
  by (induction xs rule: functionKeys.induct) simp_all

lemma regular_startIf:
  assumes "quiet p"
  shows "regular (startIf c k p)"
  unfolding regular_def
proof (intro allI)
  fix tested s
  obtain r s' where p: "p (logEvent (ImmediateStarted k) s) = (r, s')"
    by (cases "p (logEvent (ImmediateStarted k) s)")
  note fr = quiet_run [OF assms p]
  let ?new = "if c then [(k, InFlight r)] else []"
  have "fst (startIf c k p (tested, s)) = tested @ ?new \<and>
        events (snd (startIf c k p (tested, s)))
          = events s @ map ImmediateStarted (map fst (inFlight ?new)) \<and>
        capabilities (snd (startIf c k p (tested, s))) = capabilities s \<and>
        sessionId (snd (startIf c k p (tested, s))) = sessionId s \<and>
        arrival (snd (startIf c k p (tested, s))) = arrival s \<and>
        (\<forall>k f. (k, Function f) \<in> set ?new \<longrightarrow> quiet f)"
    using p fr by (simp add: startIf_def)
  then show "\<exists>new. fst (startIf c k p (tested, s)) = tested @ new \<and>
        events (snd (startIf c k p (tested, s)))
          = events s @ map ImmediateStarted (map fst (inFlight new)) \<and>
        capabilities (snd (startIf c k p (tested, s))) = capabilities s \<and>
        sessionId (snd (startIf c k p (tested, s))) = sessionId s \<and>
        arrival (snd (startIf c k p (tested, s))) = arrival s \<and>
        (\<forall>k f. (k, Function f) \<in> set new \<longrightarrow> quiet f)" by blast
qed

lemma regular_assignIf:
  assumes "inFlight [(k, v)] = []" and "\<And>f. v = Function f \<Longrightarrow> quiet f"
  shows "regular (assignIf c k v)"
  unfolding regular_def
proof (intro allI)
  fix tested s
  let ?new = "if c then [(k, v)] else []"
  have "inFlight ?new = []" using assms(1) by simp
  then have "fst (assignIf c k v (tested, s)) = tested @ ?new \<and>
        events (snd (assignIf c k v (tested, s)))
          = events s @ map ImmediateStarted (map fst (inFlight ?new)) \<and>
        capabilities (snd (assignIf c k v (tested, s))) = capabilities s \<and>
        sessionId (snd (assignIf c k v (tested, s))) = sessionId s \<and>
        arrival (snd (assignIf c k v (tested, s))) = arrival s \<and>
        (\<forall>k f. (k, Function f) \<in> set ?new \<longrightarrow> quiet f)"
    using assms(2) by (simp add: assignIf_def)
  then show "\<exists>new. fst (assignIf c k v (tested, s)) = tested @ new \<and>
        events (snd (assignIf c k v (tested, s)))
          = events s @ map ImmediateStarted (map fst (inFlight new)) \<and>
        capabilities (snd (assignIf c k v (tested, s))) = capabilities s \<and>
        sessionId (snd (assignIf c k v (tested, s))) = sessionId s \<and>
        arrival (snd (assignIf c k v (tested, s))) = arrival s \<and>
        (\<forall>k f. (k, Function f) \<in> set new \<longrightarrow> quiet f)" by blast
qed

lemma regular_assign_Function: "quiet f \<Longrightarrow> regular (assignIf c k (Function f))"
  by (rule regular_assignIf) simp_all

lemma regular_assign_Plain: "regular (assignIf c k (Plain v))"
  by (rule regular_assignIf) simp_all

lemma foldl_regular:
  assumes "\<forall>step \<in> set steps. regular step"
  shows "\<exists>new. fst (foldl (\<lambda>b step. step b) (tested, s) steps) = tested @ new \<and>
        events (snd (foldl (\<lambda>b step. step b) (tested, s) steps))
          = events s @ map ImmediateStarted (map fst (inFlight new)) \<and>
        capabilities (snd (foldl (\<lambda>b step. step b) (tested, s) steps)) = capabilities s \<and>
        sessionId (snd (foldl (\<lambda>b step. step b) (tested, s) steps)) = sessionId s \<and>
        arrival (snd (foldl (\<lambda>b step. step b) (tested, s) steps)) = arrival s \<and>
        (\<forall>k f. (k, Function f) \<in> set new \<longrightarrow> quiet f)"
  using assms
proof (induction steps arbitrary: tested s)
  case Nil
  have "fst (foldl (\<lambda>b step. step b) (tested, s) []) = tested @ [] \<and>
        events (snd (foldl (\<lambda>b step. step b) (tested, s) []))
          = events s @ map ImmediateStarted (map fst (inFlight [])) \<and>
        capabilities (snd (foldl (\<lambda>b step. step b) (tested, s) [])) = capabilities s \<and>
        sessionId (snd (foldl (\<lambda>b step. step b) (tested, s) [])) = sessionId s \<and>
        arrival (snd (foldl (\<lambda>b step. step b) (tested, s) [])) = arrival s \<and>
        (\<forall>k f. (k, Function f) \<in> set [] \<longrightarrow> quiet f)" by simp
  then show ?case by (rule exI [of _ "[]"])
next
  case (Cons step steps)
  from Cons.prems have reg: "regular step" and rest: "\<forall>step \<in> set steps. regular step"
    by simp_all
  obtain tested1 s1 where st: "step (tested, s) = (tested1, s1)" by (cases "step (tested, s)")
  note r1 = reg [unfolded regular_def, THEN spec [of _ tested], THEN spec [of _ s]]
  from r1 st have "\<exists>new. tested1 = tested @ new \<and>
        events s1 = events s @ map ImmediateStarted (map fst (inFlight new)) \<and>
        capabilities s1 = capabilities s \<and> sessionId s1 = sessionId s \<and>
        arrival s1 = arrival s \<and> (\<forall>k f. (k, Function f) \<in> set new \<longrightarrow> quiet f)"
    by simp
  then obtain new1 where
    n1: "tested1 = tested @ new1"
      "events s1 = events s @ map ImmediateStarted (map fst (inFlight new1))"
      "capabilities s1 = capabilities s" "sessionId s1 = sessionId s" "arrival s1 = arrival s"
      "\<forall>k f. (k, Function f) \<in> set new1 \<longrightarrow> quiet f"
    by blast
  from Cons.IH [OF rest, of tested1 s1] obtain new2 where
    n2: "fst (foldl (\<lambda>b step. step b) (tested1, s1) steps) = tested1 @ new2"
      "events (snd (foldl (\<lambda>b step. step b) (tested1, s1) steps))
          = events s1 @ map ImmediateStarted (map fst (inFlight new2))"
      "capabilities (snd (foldl (\<lambda>b step. step b) (tested1, s1) steps)) = capabilities s1"
      "sessionId (snd (foldl (\<lambda>b step. step b) (tested1, s1) steps)) = sessionId s1"
      "arrival (snd (foldl (\<lambda>b step. step b) (tested1, s1) steps)) = arrival s1"
      "\<forall>k f. (k, Function f) \<in> set new2 \<longrightarrow> quiet f"
    by blast
  have "fst (foldl (\<lambda>b step. step b) (tested, s) (step # steps)) = tested @ (new1 @ new2) \<and>
        events (snd (foldl (\<lambda>b step. step b) (tested, s) (step # steps)))
          = events s @ map ImmediateStarted (map fst (inFlight (new1 @ new2))) \<and>
        capabilities (snd (foldl (\<lambda>b step. step b) (tested, s) (step # steps))) = capabilities s \<and>
        sessionId (snd (foldl (\<lambda>b step. step b) (tested, s) (step # steps))) = sessionId s \<and>
        arrival (snd (foldl (\<lambda>b step. step b) (tested, s) (step # steps))) = arrival s \<and>
        (\<forall>k f. (k, Function f) \<in> set (new1 @ new2) \<longrightarrow> quiet f)"
    using n1 n2 unfolding foldl_Cons st by auto
  then show ?case by (rule exI [of _ "new1 @ new2"])
qed

lemma build_shape:
  assumes "\<forall>step \<in> set steps. regular step" and "build steps s = (tested, t)"
  shows "events t = events s @ map ImmediateStarted (map fst (inFlight tested)) \<and>
         capabilities t = capabilities s \<and> sessionId t = sessionId s \<and> arrival t = arrival s \<and>
         (\<forall>k f. (k, Function f) \<in> set tested \<longrightarrow> quiet f)"
  using foldl_regular [OF assms(1), of "[]" s] assms(2) by (auto simp: build_def)

lemma regular_featureSteps: "\<forall>step \<in> set (featureSteps s). regular step"
  by (simp add: featureSteps_def regular_startIf regular_assign_Function regular_assign_Plain
      quiet_probes)

lemma regular_defectSteps: "\<forall>step \<in> set (defectSteps s). regular step"
  by (simp add: defectSteps_def regular_startIf regular_assign_Function regular_assign_Plain
      quiet_probes)

lemma functionKeys_startIf [simp]:
  "functionKeys (fst (startIf c k p b)) = functionKeys (fst b)"
  by (cases b) (simp add: startIf_def split: prod.splits)

lemma functionKeys_assignIf_Function [simp]:
  "functionKeys (fst (assignIf c k (Function f) b)) = functionKeys (fst b) @ (if c then [k] else [])"
  by (cases b) (simp add: assignIf_def)

lemma functionKeys_assignIf_Plain [simp]:
  "functionKeys (fst (assignIf c k (Plain v) b)) = functionKeys (fst b)"
  by (cases b) (simp add: assignIf_def)

lemma functionKeys_features:
  "functionKeys (fst (build (featureSteps s) s')) = [''supportsNavigationDataUris'', ''supportsCssTransforms'']"
  by (simp add: build_def featureSteps_def)


lemma functionKeys_defects:
  "functionKeys (fst (build (defectSteps s) s')) =
     [''brokenDeleteCookie'', ''brokenExecuteElementReturn'', ''brokenElementDisplayedOpacity'']
     @ (if truthy (capability s ''mouseEnabled'') then [''brokenDoubleClick''] else [])
     @ (if truthy (capability s ''touchEnabled'')
        then [''brokenTouchScroll'', ''brokenFlickFinger'', ''brokenElementPosition'', ''brokenRefresh'']
        else [])
     @ (if truthy (capability s ''supportsCssTransforms'') then [''brokenCssTransformedSize''] else [])"
  by (simp add: build_def defectSteps_def)

lemma subseq_defects:
  "subseq (functionKeys (fst (build (defectSteps s) s')))
     [''brokenDeleteCookie'', ''brokenExecuteElementReturn'', ''brokenElementDisplayedOpacity'',
      ''brokenDoubleClick'', ''brokenTouchScroll'', ''brokenFlickFinger'',
      ''brokenElementPosition'', ''brokenRefresh'', ''brokenCssTransformedSize'']"
  unfolding functionKeys_defects by simp

lemma thunkKeys_plainObject [simp]: "thunkKeys (plainObject object) = []"
  by (induction object) (simp_all add: plainObject_def)

lemma quietThunks_plainObject [simp]: "quietThunks (plainObject object)"
  by (auto simp: quietThunks_def plainObject_def)

lemma thenDo_run:
  "thenDo p f s =
     (case p s of
        (Resolved v, s') \<Rightarrow> f v s'
      | (Rejected e, s') \<Rightarrow> (Rejected e, s')
      | (Pending, s') \<Rightarrow> (Pending, s'))"
  by (simp add: thenDo_def thenBoth_def rejected_def split: prod.splits settled.splits)

lemma thenDo_assoc: "thenDo (thenDo p f) g = thenDo p (\<lambda>v. thenDo (f v) g)"
  by (rule ext) (simp add: thenDo_run split: prod.splits settled.splits)

lemma batch_shape:
  assumes disc: "discover s = (if isSafariOnMac s then (Resolved (plainObject object), s)
                    else (case build steps s of (tested, s') \<Rightarrow> whenAll tested s'))"
    and reg: "\<forall>step \<in> set steps. regular step"
    and run: "thenDo discover addCapabilities s = (r, t)"
  shows "\<exists>started settled merge.
           events t = events s @ map ImmediateStarted started @ map ImmediateSettled settled @ merge \<and>
           oneAtATime merge \<and> (deferredStarts merge \<noteq> [] \<longrightarrow> set started \<subseteq> set settled) \<and>
           (\<forall>u. r = Resolved u \<longrightarrow> set started \<subseteq> set settled) \<and>
           prefix (deferredStarts merge) (functionKeys (fst (build steps s))) \<and>
           sessionId t = sessionId s \<and> arrival t = arrival s"
proof (cases "isSafariOnMac s")
  case True
  with disc run have "addCapabilities (plainObject object) s = (r, t)"
    by (simp add: thenDo_run)
  from addCapabilities_shape [OF quietThunks_plainObject this] obtain merge where
    m: "events t = events s @ merge" "oneAtATime merge"
      "prefix (deferredStarts merge) (thunkKeys (plainObject object))"
      "sessionId t = sessionId s" "arrival t = arrival s"
    by blast
  from m(3) have "deferredStarts merge = []" by simp
  with m have "events t = events s @ map ImmediateStarted [] @ map ImmediateSettled [] @ merge \<and>
           oneAtATime merge \<and> (deferredStarts merge \<noteq> [] \<longrightarrow> set [] \<subseteq> set ([] :: string list)) \<and>
           (\<forall>u. r = Resolved u \<longrightarrow> set [] \<subseteq> set ([] :: string list)) \<and>
           prefix (deferredStarts merge) (functionKeys (fst (build steps s))) \<and>
           sessionId t = sessionId s \<and> arrival t = arrival s"
    by simp
  then show ?thesis by blast
next
  case False
  obtain tested s1 where b: "build steps s = (tested, s1)" by (cases "build steps s")
  from build_shape [OF reg b] have
    b1: "events s1 = events s @ map ImmediateStarted (map fst (inFlight tested))"
      "sessionId s1 = sessionId s" "arrival s1 = arrival s"
      "\<forall>k f. (k, Function f) \<in> set tested \<longrightarrow> quiet f"
    by simp_all
  obtain r1 s2 where w: "whenAll tested s1 = (r1, s2)" by (cases "whenAll tested s1")
  from whenAll_shape [OF w b1(4)] obtain settled where
    w1: "events s2 = events s1 @ map ImmediateSettled settled"
      "sessionId s2 = sessionId s1" "arrival s2 = arrival s1"
      "\<forall>res. r1 = Resolved res \<longrightarrow>
              thunkKeys res = functionKeys tested \<and> quietThunks res \<and>
              set (map fst (inFlight tested)) \<subseteq> set settled"
    by blast
  from False disc b w have d: "discover s = (r1, s2)" by simp
  show ?thesis
  proof (cases r1)
    case (Resolved res)
    with d run have a: "addCapabilities res s2 = (r, t)" by (simp add: thenDo_run)
    from w1(4) Resolved have res: "thunkKeys res = functionKeys tested" "quietThunks res"
      "set (map fst (inFlight tested)) \<subseteq> set settled" by simp_all
    from addCapabilities_shape [OF res(2) a] obtain merge where
      m: "events t = events s2 @ merge" "oneAtATime merge"
        "prefix (deferredStarts merge) (thunkKeys res)"
        "sessionId t = sessionId s2" "arrival t = arrival s2"
      by blast
    have "events t = events s @ map ImmediateStarted (map fst (inFlight tested))
              @ map ImmediateSettled settled @ merge \<and>
           oneAtATime merge \<and>
           (deferredStarts merge \<noteq> [] \<longrightarrow> set (map fst (inFlight tested)) \<subseteq> set settled) \<and>
           (\<forall>u. r = Resolved u \<longrightarrow> set (map fst (inFlight tested)) \<subseteq> set settled) \<and>
           prefix (deferredStarts merge) (functionKeys (fst (build steps s))) \<and>
           sessionId t = sessionId s \<and> arrival t = arrival s"
      using m res b b1 w1 by simp
    then show ?thesis by blast
  next
    case (Rejected e)
    with d run have "t = s2" and "r = Rejected e" by (simp_all add: thenDo_run)
    then have "events t = events s @ map ImmediateStarted (map fst (inFlight tested))
              @ map ImmediateSettled settled @ [] \<and>
           oneAtATime [] \<and>
           (deferredStarts [] \<noteq> [] \<longrightarrow> set (map fst (inFlight tested)) \<subseteq> set settled) \<and>
           (\<forall>u. r = Resolved u \<longrightarrow> set (map fst (inFlight tested)) \<subseteq> set settled) \<and>
           prefix (deferredStarts []) (functionKeys (fst (build steps s))) \<and>
           sessionId t = sessionId s \<and> arrival t = arrival s"
      using b1 w1 by simp
    then show ?thesis by blast
  next
    case Pending
    with d run have "t = s2" and "r = Pending" by (simp_all add: thenDo_run)
    then have "events t = events s @ map ImmediateStarted (map fst (inFlight tested))
              @ map ImmediateSettled settled @ [] \<and>
           oneAtATime [] \<and>
           (deferredStarts [] \<noteq> [] \<longrightarrow> set (map fst (inFlight tested)) \<subseteq> set settled) \<and>
           (\<forall>u. r = Resolved u \<longrightarrow> set (map fst (inFlight tested)) \<subseteq> set settled) \<and>
           prefix (deferredStarts []) (functionKeys (fst (build steps s))) \<and>
           sessionId t = sessionId s \<and> arrival t = arrival s"
      using b1 w1 by simp
    then show ?thesis by blast
  qed
qed

lemma feature_batch:
  assumes "thenDo discoverFeatures addCapabilities s = (r, t)"
  shows "\<exists>started settled merge.
           events t = events s @ map ImmediateStarted started @ map ImmediateSettled settled @ merge \<and>
           oneAtATime merge \<and> (deferredStarts merge \<noteq> [] \<longrightarrow> set started \<subseteq> set settled) \<and>
           (\<forall>u. r = Resolved u \<longrightarrow> set started \<subseteq> set settled) \<and>
           prefix (deferredStarts merge) [''supportsNavigationDataUris'', ''supportsCssTransforms''] \<and>
           sessionId t = sessionId s \<and> arrival t = arrival s"
  using batch_shape [of discoverFeatures s safariFeatures "featureSteps s" r t,
      OF _ regular_featureSteps assms]
  by (simp add: discoverFeatures_def functionKeys_features)

lemma defect_batch:
  assumes "thenDo discoverDefects addCapabilities s = (r, t)"
  shows "\<exists>started settled merge.
           events t = events s @ map ImmediateStarted started @ map ImmediateSettled settled @ merge \<and>
           oneAtATime merge \<and> (deferredStarts merge \<noteq> [] \<longrightarrow> set started \<subseteq> set settled) \<and>
           (\<forall>u. r = Resolved u \<longrightarrow> set started \<subseteq> set settled) \<and>
           prefix (deferredStarts merge) (functionKeys (fst (build (defectSteps s) s))) \<and>
           sessionId t = sessionId s \<and> arrival t = arrival s"
  using batch_shape [of discoverDefects s safariDefects "defectSteps s" r t,
      OF _ regular_defectSteps assms]
  by (simp add: discoverDefects_def)

lemma discovery_chain:
  "discovery =
     thenDo (command ''get'' [JStr ''about:blank''])
       (\<lambda>_. thenDo (thenDo discoverFeatures addCapabilities)
          (\<lambda>_. thenDo discoverDefects addCapabilities))"
  by (simp add: discovery_def thenDo_assoc)

lemma quiet_cleanup: "quiet cleanup"
proof -
  have "quiet (\<lambda>s. (Resolved (sessionId s), s))"
    by (simp add: quiet_def)
  then show ?thesis unfolding cleanup_def by (intro quiet_intros)
qed

lemma always_run:
  "always p f s = (case p s of (Pending, s') \<Rightarrow> (Pending, s') | (r, s') \<Rightarrow> f s')"
  by (simp add: always_def thenBoth_def split: prod.splits settled.splits)

lemma fix_events:
  assumes "fixSessionCapabilities s = (r, t)" and "discovery s = (rd, sd)"
  shows "events t = events sd \<and> sessionId t = sessionId sd"
proof (cases rd)
  case Pending
  with assms show ?thesis by (simp add: fixSessionCapabilities_def always_run)
next
  case (Resolved u)
  with assms have "cleanup sd = (r, t)" by (simp add: fixSessionCapabilities_def always_run)
  with quiet_run [OF quiet_cleanup this] show ?thesis by simp
next
  case (Rejected e)
  with assms have "cleanup sd = (r, t)" by (simp add: fixSessionCapabilities_def always_run)
  with quiet_run [OF quiet_cleanup this] show ?thesis by simp
qed

lemma deferredCatalog_split:
  "deferredCatalog = [''supportsNavigationDataUris'', ''supportsCssTransforms''] @
     [''brokenDeleteCookie'', ''brokenExecuteElementReturn'', ''brokenElementDisplayedOpacity'',
      ''brokenDoubleClick'', ''brokenTouchScroll'', ''brokenFlickFinger'',
      ''brokenElementPosition'', ''brokenRefresh'', ''brokenCssTransformedSize'']"
  by (simp add: deferredCatalog_def)

lemma prefix_subseq: "prefix xs ys \<Longrightarrow> subseq xs ys"
  by (auto simp: prefix_def)

lemma discovery_shape:
  assumes "discovery s = (r, t)"
  shows "\<exists>started1 settled1 merge1 started2 settled2 merge2.
     events t = events s @ map ImmediateStarted started1 @ map ImmediateSettled settled1 @ merge1
              @ map ImmediateStarted started2 @ map ImmediateSettled settled2 @ merge2 \<and>
     oneAtATime merge1 \<and> oneAtATime merge2 \<and>
     (deferredStarts merge1 \<noteq> [] \<longrightarrow> set started1 \<subseteq> set settled1) \<and>
     (deferredStarts merge2 \<noteq> [] \<longrightarrow> set started2 \<subseteq> set settled2) \<and>
     (deferredStarts merge2 \<noteq> [] \<longrightarrow> set started1 \<subseteq> set settled1) \<and>
     subseq (deferredStarts merge1 @ deferredStarts merge2) deferredCatalog \<and>
     sessionId t = sessionId s"
proof -
  let ?goal = "\<lambda>t. \<exists>started1 settled1 merge1 started2 settled2 merge2.
     events t = events s @ map ImmediateStarted started1 @ map ImmediateSettled settled1 @ merge1
              @ map ImmediateStarted started2 @ map ImmediateSettled settled2 @ merge2 \<and>
     oneAtATime merge1 \<and> oneAtATime merge2 \<and>
     (deferredStarts merge1 \<noteq> [] \<longrightarrow> set started1 \<subseteq> set settled1) \<and>
     (deferredStarts merge2 \<noteq> [] \<longrightarrow> set started2 \<subseteq> set settled2) \<and>
     (deferredStarts merge2 \<noteq> [] \<longrightarrow> set started1 \<subseteq> set settled1) \<and>
     subseq (deferredStarts merge1 @ deferredStarts merge2) deferredCatalog \<and>
     sessionId t = sessionId s"
  obtain r0 s0 where g: "command ''get'' [JStr ''about:blank''] s = (r0, s0)"
    by (cases "command ''get'' [JStr ''about:blank''] s")
  note g0 = quiet_run [OF quiet_command g]
  have trivial: "?goal t" if "events t = events s" and "sessionId t = sessionId s" for t
  proof -
    have "events t = events s @ map ImmediateStarted [] @ map ImmediateSettled [] @ []
              @ map ImmediateStarted [] @ map ImmediateSettled [] @ [] \<and>
     oneAtATime [] \<and> oneAtATime [] \<and>
     (deferredStarts [] \<noteq> [] \<longrightarrow> set [] \<subseteq> set ([] :: string list)) \<and>
     (deferredStarts [] \<noteq> [] \<longrightarrow> set [] \<subseteq> set ([] :: string list)) \<and>
     (deferredStarts [] \<noteq> [] \<longrightarrow> set [] \<subseteq> set ([] :: string list)) \<and>
     subseq (deferredStarts [] @ deferredStarts []) deferredCatalog \<and>
     sessionId t = sessionId s"
      using that by simp
    then show ?thesis by blast
  qed
  show ?thesis
  proof (cases r0)
    case (Rejected e)
    with assms g have "t = s0" by (simp add: discovery_chain thenDo_run)
    with g0 show ?thesis by (intro trivial) simp_all
  next
    case Pending
    with assms g have "t = s0" by (simp add: discovery_chain thenDo_run)
    with g0 show ?thesis by (intro trivial) simp_all
  next
    case (Resolved v)
    obtain r1 s1 where f: "thenDo discoverFeatures addCapabilities s0 = (r1, s1)"
      by (cases "thenDo discoverFeatures addCapabilities s0")
    from feature_batch [OF f] obtain started1 settled1 merge1 where
      b1: "events s1 = events s0 @ map ImmediateStarted started1 @ map ImmediateSettled settled1 @ merge1"
        "oneAtATime merge1" "deferredStarts merge1 \<noteq> [] \<longrightarrow> set started1 \<subseteq> set settled1"
        "prefix (deferredStarts merge1) [''supportsNavigationDataUris'', ''supportsCssTransforms'']"
        "sessionId s1 = sessionId s0" "\<forall>u. r1 = Resolved u \<longrightarrow> set started1 \<subseteq> set settled1"
      by blast
    have sub1: "subseq (deferredStarts merge1 @ []) deferredCatalog"
      unfolding deferredCatalog_split
      by (rule list_emb_append_mono [OF prefix_subseq [OF b1(4)]]) simp
    have first_only: "?goal s1"
    proof -
      have "events s1 = events s @ map ImmediateStarted started1 @ map ImmediateSettled settled1 @ merge1
              @ map ImmediateStarted [] @ map ImmediateSettled [] @ [] \<and>
       oneAtATime merge1 \<and> oneAtATime [] \<and>
       (deferredStarts merge1 \<noteq> [] \<longrightarrow> set started1 \<subseteq> set settled1) \<and>
       (deferredStarts [] \<noteq> [] \<longrightarrow> set [] \<subseteq> set ([] :: string list)) \<and>
       (deferredStarts [] \<noteq> [] \<longrightarrow> set started1 \<subseteq> set settled1) \<and>
       subseq (deferredStarts merge1 @ deferredStarts []) deferredCatalog \<and>
       sessionId s1 = sessionId s"
        using b1 g0 sub1 by simp
      then show ?thesis by blast
    qed
    show ?thesis
    proof (cases r1)
      case (Rejected e)
      with assms g Resolved f have "t = s1" by (simp add: discovery_chain thenDo_run)
      with first_only show ?thesis by simp
    next
      case Pending
      with assms g Resolved f have "t = s1" by (simp add: discovery_chain thenDo_run)
      with first_only show ?thesis by simp
    next
      case r1: (Resolved u)
      with assms g Resolved f have d: "thenDo discoverDefects addCapabilities s1 = (r, t)"
        by (simp add: discovery_chain thenDo_run)
      from defect_batch [OF d] obtain started2 settled2 merge2 where
        b2: "events t = events s1 @ map ImmediateStarted started2 @ map ImmediateSettled settled2 @ merge2"
          "oneAtATime merge2" "deferredStarts merge2 \<noteq> [] \<longrightarrow> set started2 \<subseteq> set settled2"
          "prefix (deferredStarts merge2) (functionKeys (fst (build (defectSteps s1) s1)))"
          "sessionId t = sessionId s1"
        by blast
      from prefix_subseq [OF b2(4)] subseq_defects [of s1 s1]
      have "subseq (deferredStarts merge2)
         [''brokenDeleteCookie'', ''brokenExecuteElementReturn'', ''brokenElementDisplayedOpacity'',
          ''brokenDoubleClick'', ''brokenTouchScroll'', ''brokenFlickFinger'',
          ''brokenElementPosition'', ''brokenRefresh'', ''brokenCssTransformedSize'']"
        by (rule subseq_order.order_trans)
      with prefix_subseq [OF b1(4)]
      have sub: "subseq (deferredStarts merge1 @ deferredStarts merge2) deferredCatalog"
        unfolding deferredCatalog_split by (rule list_emb_append_mono)
      have "events t = events s @ map ImmediateStarted started1 @ map ImmediateSettled settled1 @ merge1
              @ map ImmediateStarted started2 @ map ImmediateSettled settled2 @ merge2 \<and>
       oneAtATime merge1 \<and> oneAtATime merge2 \<and>
       (deferredStarts merge1 \<noteq> [] \<longrightarrow> set started1 \<subseteq> set settled1) \<and>
       (deferredStarts merge2 \<noteq> [] \<longrightarrow> set started2 \<subseteq> set settled2) \<and>
     (deferredStarts merge2 \<noteq> [] \<longrightarrow> set started1 \<subseteq> set settled1) \<and>
       subseq (deferredStarts merge1 @ deferredStarts merge2) deferredCatalog \<and>
       sessionId t = sessionId s"
        using b1 b2 g0 sub r1 by simp
      then show ?thesis by blast
    qed
  qed
qed

subsection \<open>Nothing is started over something unsettled\<close>

lemma orderly_Nil [simp]: "orderly []"
  by (simp add: orderly_def)

lemma orderly_append_quiet:
  assumes "orderly xs" and "\<forall>k. DeferredStarted k \<notin> set ys"
  shows "orderly (xs @ ys)"
  unfolding orderly_def
proof (intro allI impI)
  fix pre k post assume eq: "xs @ ys = pre @ DeferredStarted k # post"
  then consider us where "xs = pre @ us" "us @ ys = DeferredStarted k # post"
    | us where "xs @ us = pre" "ys = us @ DeferredStarted k # post"
    by (auto simp: append_eq_append_conv2)
  then show "allSettled pre"
  proof cases
    case 1
    show ?thesis
    proof (cases us)
      case Nil
      with 1 assms(2) show ?thesis by auto
    next
      case (Cons u us')
      with 1 have "xs = pre @ DeferredStarted k # us'" by simp
      with assms(1) show ?thesis by (auto simp: orderly_def)
    qed
  next
    case 2
    with assms(2) show ?thesis by auto
  qed
qed

lemma orderly_start:
  assumes "orderly xs" and "allSettled xs"
  shows "orderly (xs @ [DeferredStarted k])"
  unfolding orderly_def
proof (intro allI impI)
  fix pre k' post assume eq: "xs @ [DeferredStarted k] = pre @ DeferredStarted k' # post"
  show "allSettled pre"
  proof (cases post rule: rev_cases)
    case Nil
    with eq have "pre = xs" by simp
    with assms(2) show ?thesis by simp
  next
    case (snoc post' e)
    with eq have "xs = pre @ DeferredStarted k' # post'" by simp
    with assms(1) show ?thesis by (auto simp: orderly_def)
  qed
qed

lemma allSettled_simps:
  "allSettled (xs @ [Written k v]) = allSettled xs"
  "allSettled xs \<Longrightarrow> allSettled (xs @ [DeferredStarted k, DeferredSettled k])"
  "allSettled xs \<Longrightarrow> allSettled (xs @ map ImmediateSettled ks)"
  by (auto simp: allSettled_def)

lemma allSettled_batch:
  assumes "allSettled xs" and "set started \<subseteq> set settled"
  shows "allSettled (xs @ map ImmediateStarted started @ map ImmediateSettled settled)"
  using assms by (auto simp: allSettled_def)

lemma addCapabilities_orderly:
  assumes "quietThunks batch" and "addCapabilities batch s = (r, t)"
    and "orderly (events s)" and "allSettled (events s)"
  shows "orderly (events t) \<and> (\<forall>u. r = Resolved u \<longrightarrow> allSettled (events t))"
  using assms
proof (induction batch arbitrary: s)
  case Nil
  then show ?case by auto
next
  case (Cons entry batch)
  obtain key v where entry: "entry = (key, v)" by (cases entry)
  from Cons.prems entry have q: "quietThunks batch" by (simp add: quietThunks_Cons)
  show ?case
  proof (cases "key = []")
    case True
    with Cons.prems entry show ?thesis by auto
  next
    case key: False
    show ?thesis
    proof (cases v)
      case (Value x)
      let ?s1 = "writeCapability key x s"
      from Cons.prems entry key Value have a: "addCapabilities batch ?s1 = (r, t)" by simp
      have o: "orderly (events ?s1)"
        using orderly_append_quiet [OF Cons.prems(3), of "[Written key x]"] by simp
      have s: "allSettled (events ?s1)"
        using Cons.prems(4) by (simp add: allSettled_simps)
      from Cons.IH [OF q a o s] show ?thesis .
    next
      case (Thunk f)
      obtain r' s' where f: "f (logEvent (DeferredStarted key) s) = (r', s')"
        by (cases "f (logEvent (DeferredStarted key) s)")
      from Cons.prems entry Thunk have qf: "quiet f" by (simp add: quietThunks_Cons)
      note fr = quiet_run [OF qf f]
      have o1: "orderly (events s')"
        using orderly_start [OF Cons.prems(3,4), of key] fr by simp
      show ?thesis
      proof (cases r')
        case (Resolved x)
        let ?s1 = "writeCapability key x (logEvent (DeferredSettled key) s')"
        from Cons.prems entry key Thunk f Resolved
        have a: "addCapabilities batch ?s1 = (r, t)" by simp
        have o: "orderly (events ?s1)"
          using orderly_append_quiet [OF o1, of "[DeferredSettled key, Written key x]"]
          by simp
        have "allSettled ((events s @ [DeferredStarted key, DeferredSettled key]) @ [Written key x])"
          using Cons.prems(4) by (simp only: allSettled_simps)
        then have s: "allSettled (events ?s1)" using fr by simp
        from Cons.IH [OF q a o s] show ?thesis .
      next
        case (Rejected e)
        with Cons.prems entry key Thunk f
        have "t = logEvent (DeferredSettled key) s'" and "r = Rejected e" by simp_all
        with orderly_append_quiet [OF o1, of "[DeferredSettled key]"] show ?thesis by simp
      next
        case Pending
        with Cons.prems entry key Thunk f have "t = s'" and "r = Pending" by simp_all
        with o1 show ?thesis by simp
      qed
    qed
  qed
qed

lemma batch_orderly:
  assumes disc: "discover s = (if isSafariOnMac s then (Resolved (plainObject object), s)
                    else (case build steps s of (tested, s') \<Rightarrow> whenAll tested s'))"
    and reg: "\<forall>step \<in> set steps. regular step"
    and run: "thenDo discover addCapabilities s = (r, t)"
    and o: "orderly (events s)" and a: "allSettled (events s)"
  shows "orderly (events t) \<and> (\<forall>u. r = Resolved u \<longrightarrow> allSettled (events t))"
proof (cases "isSafariOnMac s")
  case True
  with disc run have "addCapabilities (plainObject object) s = (r, t)"
    by (simp add: thenDo_run)
  from addCapabilities_orderly [OF quietThunks_plainObject this o a] show ?thesis .
next
  case False
  obtain tested s1 where b: "build steps s = (tested, s1)" by (cases "build steps s")
  from build_shape [OF reg b] have
    b1: "events s1 = events s @ map ImmediateStarted (map fst (inFlight tested))"
      "\<forall>k f. (k, Function f) \<in> set tested \<longrightarrow> quiet f"
    by simp_all
  obtain r1 s2 where w: "whenAll tested s1 = (r1, s2)" by (cases "whenAll tested s1")
  from whenAll_shape [OF w b1(2)] obtain settled where
    w1: "events s2 = events s1 @ map ImmediateSettled settled"
      "\<forall>res. r1 = Resolved res \<longrightarrow> quietThunks res \<and>
              set (map fst (inFlight tested)) \<subseteq> set settled"
    by blast
  from False disc b w have d: "discover s = (r1, s2)" by simp
  have ev: "events s2 = events s @ map ImmediateStarted (map fst (inFlight tested))
              @ map ImmediateSettled settled"
    using b1 w1 by simp
  have o2: "orderly (events s2)"
    unfolding ev by (rule orderly_append_quiet [OF o]) auto
  show ?thesis
  proof (cases r1)
    case (Resolved res)
    with d run have ac: "addCapabilities res s2 = (r, t)" by (simp add: thenDo_run)
    from w1(2) Resolved have q: "quietThunks res"
      and sub: "set (map fst (inFlight tested)) \<subseteq> set settled" by simp_all
    have a2: "allSettled (events s2)"
      unfolding ev by (rule allSettled_batch [OF a sub])
    from addCapabilities_orderly [OF q ac o2 a2] show ?thesis .
  next
    case (Rejected e)
    with d run have "t = s2" and "r = Rejected e" by (simp_all add: thenDo_run)
    with o2 show ?thesis by simp
  next
    case Pending
    with d run have "t = s2" and "r = Pending" by (simp_all add: thenDo_run)
    with o2 show ?thesis by simp
  qed
qed

lemma fix_orderly:
  assumes "fixSessionCapabilities s = (r, t)" and "events s = []"
  shows "orderly (events t)"
proof -
  obtain rd sd where d: "discovery s = (rd, sd)" by (cases "discovery s")
  from fix_events [OF assms(1) d] have ev: "events t = events sd" by simp
  obtain r0 s0 where g: "command ''get'' [JStr ''about:blank''] s = (r0, s0)"
    by (cases "command ''get'' [JStr ''about:blank''] s")
  note g0 = quiet_run [OF quiet_command g]
  from g0 assms(2) have o0: "orderly (events s0)" and a0: "allSettled (events s0)"
    by (simp_all add: allSettled_def)
  have "orderly (events sd)"
  proof (cases r0)
    case (Rejected e)
    with d g have "sd = s0" by (simp add: discovery_chain thenDo_run)
    with o0 show ?thesis by simp
  next
    case Pending
    with d g have "sd = s0" by (simp add: discovery_chain thenDo_run)
    with o0 show ?thesis by simp
  next
    case (Resolved v)
    obtain r1 s1 where f: "thenDo discoverFeatures addCapabilities s0 = (r1, s1)"
      by (cases "thenDo discoverFeatures addCapabilities s0")
    from batch_orderly [of discoverFeatures s0 safariFeatures "featureSteps s0" r1 s1,
        OF _ regular_featureSteps f o0 a0]
    have o1: "orderly (events s1)" and a1: "\<forall>u. r1 = Resolved u \<longrightarrow> allSettled (events s1)"
      by (simp_all add: discoverFeatures_def)
    show ?thesis
    proof (cases r1)
      case (Rejected e)
      with d g Resolved f have "sd = s1" by (simp add: discovery_chain thenDo_run)
      with o1 show ?thesis by simp
    next
      case Pending
      with d g Resolved f have "sd = s1" by (simp add: discovery_chain thenDo_run)
      with o1 show ?thesis by simp
    next
      case r1: (Resolved u)
      with d g Resolved f have dd: "thenDo discoverDefects addCapabilities s1 = (rd, sd)"
        by (simp add: discovery_chain thenDo_run)
      from a1 r1 have a1': "allSettled (events s1)" by simp
      from batch_orderly [of discoverDefects s1 safariDefects "defectSteps s1" rd sd,
          OF _ regular_defectSteps dd o1 a1']
      show ?thesis by (simp add: discoverDefects_def)
    qed
  qed
  with ev show ?thesis by simp
qed

text \<open>
  Claim C1: in every batch of a negotiation (the feature batch, then the defect batch),
  every Immediate probe, a promise that is in flight, has settled before the first
  Deferred probe, a function, is started; and the Deferred probes run one at a time in
  the order of the catalog, each one settling before the next one starts. Here the event
  log of a negotiation is, batch by batch: the starts of the batch's promises, the
  settling of promises, and the merge. A merge is a sequence of plain writes and of
  triples start, settling, write of the same function, so that no promise starts or
  settles during a merge and no two functions overlap; when a merge starts a function at
  all, every promise started in its batch (and in the batch before) has settled in
  front of the merge; and the functions started are a subsequence of the catalog. Read
  off the log of a negotiation that starts with an empty log: wherever a function is
  started, every promise and every function started before that point has settled
  before that point.
\<close>

theorem deferred_probes_wait_and_take_turns:
  assumes "fixSessionCapabilities s = (r, t)"
  shows "(\<exists>started1 settled1 merge1 started2 settled2 merge2.
     events t = events s @ map ImmediateStarted started1 @ map ImmediateSettled settled1 @ merge1
              @ map ImmediateStarted started2 @ map ImmediateSettled settled2 @ merge2 \<and>
     oneAtATime merge1 \<and> oneAtATime merge2 \<and>
     (deferredStarts merge1 \<noteq> [] \<longrightarrow> set started1 \<subseteq> set settled1) \<and>
     (deferredStarts merge2 \<noteq> [] \<longrightarrow> set started2 \<subseteq> set settled2) \<and>
     (deferredStarts merge2 \<noteq> [] \<longrightarrow> set started1 \<subseteq> set settled1) \<and>
     subseq (deferredStarts merge1 @ deferredStarts merge2) deferredCatalog) \<and>
    (events s = [] \<longrightarrow> orderly (events t))"
proof (rule conjI)
  obtain rd sd where d: "discovery s = (rd, sd)" by (cases "discovery s")
  from fix_events [OF assms d] have "events t = events sd" by simp
  with discovery_shape [OF d]
  show "\<exists>started1 settled1 merge1 started2 settled2 merge2.
     events t = events s @ map ImmediateStarted started1 @ map ImmediateSettled settled1 @ merge1
              @ map ImmediateStarted started2 @ map ImmediateSettled settled2 @ merge2 \<and>
     oneAtATime merge1 \<and> oneAtATime merge2 \<and>
     (deferredStarts merge1 \<noteq> [] \<longrightarrow> set started1 \<subseteq> set settled1) \<and>
     (deferredStarts merge2 \<noteq> [] \<longrightarrow> set started2 \<subseteq> set settled2) \<and>
     (deferredStarts merge2 \<noteq> [] \<longrightarrow> set started1 \<subseteq> set settled1) \<and>
     subseq (deferredStarts merge1 @ deferredStarts merge2) deferredCatalog"
    by simp blast
next
  from fix_orderly [OF assms] show "events s = [] \<longrightarrow> orderly (events t)" by blast
qed


lemma negotiationStart_events:
  "events (snd (fixSessionCapabilities negotiationStart)) =
     [ImmediateStarted ''takesScreenshot'',
      ImmediateStarted ''supportsExecuteAsync'',
      ImmediateSettled ''supportsExecuteAsync'',
      ImmediateSettled ''takesScreenshot'',
      DeferredStarted ''supportsNavigationDataUris'',
      DeferredSettled ''supportsNavigationDataUris'',
      Written ''supportsNavigationDataUris'' (JBool True),
      DeferredStarted ''supportsCssTransforms'',
      DeferredSettled ''supportsCssTransforms'',
      Written ''supportsCssTransforms'' (JBool True),
      Written ''supportsExecuteAsync'' (JBool True),
      Written ''takesScreenshot'' (JBool True),
      ImmediateStarted ''brokenHtmlTagName'',
      ImmediateStarted ''brokenNullGetAttribute'',
      ImmediateStarted ''fixedLogTypes'']"
  by code_simp

lemma negotiationStart_pending: "fst (fixSessionCapabilities negotiationStart) = Pending"
  by code_simp

theorem deferred_probes_wait_and_take_turns_witness:
  "fixSessionCapabilities negotiationStart
     = (Pending, snd (fixSessionCapabilities negotiationStart)) \<and>
   events negotiationStart = [] \<and>
   events (snd (fixSessionCapabilities negotiationStart)) =
     [ImmediateStarted ''takesScreenshot'',
      ImmediateStarted ''supportsExecuteAsync'',
      ImmediateSettled ''supportsExecuteAsync'',
      ImmediateSettled ''takesScreenshot'',
      DeferredStarted ''supportsNavigationDataUris'',
      DeferredSettled ''supportsNavigationDataUris'',
      Written ''supportsNavigationDataUris'' (JBool True),
      DeferredStarted ''supportsCssTransforms'',
      DeferredSettled ''supportsCssTransforms'',
      Written ''supportsCssTransforms'' (JBool True),
      Written ''supportsExecuteAsync'' (JBool True),
      Written ''takesScreenshot'' (JBool True),
      ImmediateStarted ''brokenHtmlTagName'',
      ImmediateStarted ''brokenNullGetAttribute'',
      ImmediateStarted ''fixedLogTypes''] \<and>
   (\<exists>started1 settled1 merge1 started2 settled2 merge2.
     events (snd (fixSessionCapabilities negotiationStart)) =
       events negotiationStart @ map ImmediateStarted started1 @ map ImmediateSettled settled1
         @ merge1 @ map ImmediateStarted started2 @ map ImmediateSettled settled2 @ merge2 \<and>
     oneAtATime merge1 \<and> oneAtATime merge2 \<and>
     (deferredStarts merge1 \<noteq> [] \<longrightarrow> set started1 \<subseteq> set settled1) \<and>
     (deferredStarts merge2 \<noteq> [] \<longrightarrow> set started2 \<subseteq> set settled2) \<and>
     (deferredStarts merge2 \<noteq> [] \<longrightarrow> set started1 \<subseteq> set settled1) \<and>
     subseq (deferredStarts merge1 @ deferredStarts merge2) deferredCatalog) \<and>
   orderly (events (snd (fixSessionCapabilities negotiationStart)))"
proof -
  have run: "fixSessionCapabilities negotiationStart
     = (Pending, snd (fixSessionCapabilities negotiationStart))"
    using negotiationStart_pending by (simp add: prod_eq_iff)
  have start: "events negotiationStart = []"
    by (simp add: negotiationStart_def sessionWith_def)
  note shape = deferred_probes_wait_and_take_turns [OF run]
  from shape [THEN conjunct2] start
  have "orderly (events (snd (fixSessionCapabilities negotiationStart)))" by simp
  with shape [THEN conjunct1] run start negotiationStart_events
  show ?thesis by blast
qed

section \<open>The outcome of negotiation\<close>

lemma command_run:
  "command name args s =
     (case replies s of
        [] \<Rightarrow> (Pending, s\<lparr> commands := commands s @ [(name, args)] \<rparr>)
      | r # rest \<Rightarrow> (r, s\<lparr> replies := rest, commands := commands s @ [(name, args)] \<rparr>))"
  by (simp add: command_def)

lemma cleanup_run:
  "cleanup s =
     (case replies s of
        [] \<Rightarrow> (Pending, s\<lparr> commands := commands s @ [(''get'', [JStr ''about:blank''])] \<rparr>)
      | reply # rest \<Rightarrow>
          (case reply of
             Resolved v \<Rightarrow> Resolved (sessionId s)
           | Rejected e \<Rightarrow> Rejected e
           | Pending \<Rightarrow> Pending,
           s\<lparr> replies := rest, commands := commands s @ [(''get'', [JStr ''about:blank''])] \<rparr>))"
  by (simp add: cleanup_def thenDo_run command_def split: list.splits settled.splits)


lemma addCapabilities_plainObject:
  assumes "\<forall>entry \<in> set object. fst entry \<noteq> []"
  shows "addCapabilities (plainObject object) s =
     (Resolved (),
      s\<lparr> capabilities := applyWrites object (capabilities s),
         events := events s @ map (\<lambda>w. Written (fst w) (snd w)) object \<rparr>)"
  using assms
proof (induction object arbitrary: s)
  case Nil
  then show ?case by (simp add: plainObject_def)
next
  case (Cons w object)
  then have "addCapabilities (plainObject object) (writeCapability (fst w) (snd w) s) =
     (Resolved (),
      (writeCapability (fst w) (snd w) s)\<lparr> capabilities := applyWrites object (capabilities (writeCapability (fst w) (snd w) s)),
         events := events (writeCapability (fst w) (snd w) s) @ map (\<lambda>w. Written (fst w) (snd w)) object \<rparr>)"
    by simp
  with Cons.prems show ?case
    by (simp add: plainObject_def writeCapability_def)
qed

lemma map_of_applyWrites:
  "k \<notin> fst ` set ws \<Longrightarrow> map_of (applyWrites ws c) k = map_of c k"
  by (induction ws arbitrary: c) (auto simp: update_conv')

lemma capability_applyWrites:
  "k \<notin> fst ` set ws \<Longrightarrow>
     capability (s\<lparr> capabilities := applyWrites ws (capabilities s), events := evs \<rparr>) k = capability s k"
  by (simp add: capability_def map_of_applyWrites)

lemma safari_keys:
  "\<forall>entry \<in> set safariFeatures. fst entry \<noteq> []"
  "\<forall>entry \<in> set safariDefects. fst entry \<noteq> []"
  "''browserName'' \<notin> fst ` set safariFeatures" "''platform'' \<notin> fst ` set safariFeatures"
  by (simp_all add: safariFeatures_def safariDefects_def)

lemma isSafariOnMac_cong:
  "capabilities s' = capabilities s \<Longrightarrow> isSafariOnMac s' = isSafariOnMac s"
  by (simp add: isSafariOnMac_def capability_def)

lemma safari_batches:
  assumes "isSafariOnMac s"
  shows "thenDo (thenDo discoverFeatures addCapabilities)
           (\<lambda>_. thenDo discoverDefects addCapabilities) s =
     (Resolved (),
      s\<lparr> capabilities := applyWrites (safariFeatures @ safariDefects) (capabilities s),
         events := events s @ map (\<lambda>w. Written (fst w) (snd w)) (safariFeatures @ safariDefects) \<rparr>)"
proof -
  let ?s1 = "s\<lparr> capabilities := applyWrites safariFeatures (capabilities s),
         events := events s @ map (\<lambda>w. Written (fst w) (snd w)) safariFeatures \<rparr>"
  have f: "thenDo discoverFeatures addCapabilities s = (Resolved (), ?s1)"
    using assms by (simp add: thenDo_run discoverFeatures_def addCapabilities_plainObject safari_keys)
  have "isSafariOnMac ?s1"
    using assms by (simp add: isSafariOnMac_def capability_applyWrites safari_keys)
  then have d: "thenDo discoverDefects addCapabilities ?s1 =
     (Resolved (),
      ?s1\<lparr> capabilities := applyWrites safariDefects (capabilities ?s1),
         events := events ?s1 @ map (\<lambda>w. Written (fst w) (snd w)) safariDefects \<rparr>)"
    by (simp add: thenDo_run discoverDefects_def addCapabilities_plainObject safari_keys)
  show ?thesis
    by (subst thenDo_run) (simp add: f d)
qed

section \<open>Negotiation settles unless a command is left unanswered\<close>





























lemma promptThunks_plainObject [simp]: "promptThunks (plainObject object)"
  by (auto simp: promptThunks_def plainObject_def)


















section \<open>The capabilities are the recorded writes\<close>

lemma writes_started [simp]: "writes (map ImmediateStarted ks) = []"
  by (induction ks) simp_all

lemma writes_started_keys [simp]: "writes (map (ImmediateStarted \<circ> f) xs) = []"
  by (induction xs) simp_all

lemma writes_settled [simp]: "writes (map ImmediateSettled ks) = []"
  by (induction ks) simp_all




section \<open>What a failing probe leads to\<close>

















lemma contained_Nil [simp]: "contained leaks []"
  by (simp add: contained_def)


















lemma keys_startIf [simp]:
  "map fst (fst (startIf c k p b)) = map fst (fst b) @ (if c then [k] else [])"
  by (cases b) (simp add: startIf_def split: prod.splits)

lemma keys_assignIf [simp]:
  "map fst (fst (assignIf c k v b)) = map fst (fst b) @ (if c then [k] else [])"
  by (cases b) (simp add: assignIf_def)










text \<open>
  Claim C6, as stated: when the reported capabilities have the browser name
  \<^verbatim>\<open>safari\<close> and the platform \<^verbatim>\<open>MAC\<close>, session creation merges exactly the two
  hardcoded result sets into the capabilities. It does not when the initial blank-page
  navigation fails: the discovery functions are then never called, negotiation resolves
  with the session all the same, and the capabilities are as the server reported them.
\<close>

theorem safari_nothing_merged_when_first_navigation_fails:
  "fixSessionCapabilities (sessionWith safariOnMac [Rejected navigationError, Resolved JNull]) =
     (Resolved ''session-1'',
      \<lparr> sessionId = ''session-1'',
        capabilities = [(''browserName'', JStr ''safari''), (''platform'', JStr ''MAC'')],
        replies = [], arrival = [],
        commands = [(''get'', [JStr ''about:blank'']), (''get'', [JStr ''about:blank''])],
        events = [] \<rparr>)"
  by (simp add: fixSessionCapabilities_def always_run discovery_chain thenDo_run command_def
      cleanup_def sessionWith_def safariOnMac_def)

text \<open>
  Claim C6, amended: when the reported capabilities have the browser name \<^verbatim>\<open>safari\<close>
  and the platform \<^verbatim>\<open>MAC\<close>, negotiation issues no command other than the blank-page
  navigations, whatever the session answers; and when the initial navigation succeeds,
  the chain in front of \<^verbatim>\<open>always\<close> resolves, having written exactly the hardcoded
  feature set and then the hardcoded defect set into the capabilities, key by key.
\<close>

theorem safari_on_mac_is_not_probed:
  assumes "isSafariOnMac s"
  shows "(\<forall>v rest. replies s = Resolved v # rest \<longrightarrow>
            discovery s =
              (Resolved (),
               s\<lparr> capabilities := applyWrites (safariFeatures @ safariDefects) (capabilities s),
                  replies := rest,
                  commands := commands s @ [(''get'', [JStr ''about:blank''])],
                  events := events s @ map (\<lambda>w. Written (fst w) (snd w)) (safariFeatures @ safariDefects) \<rparr>))
       \<and> set (commands (snd (fixSessionCapabilities s)))
            \<subseteq> set (commands s) \<union> {(''get'', [JStr ''about:blank''])}"
proof (intro conjI allI impI)
  fix v rest assume r: "replies s = Resolved v # rest"
  let ?s0 = "s\<lparr> replies := rest, commands := commands s @ [(''get'', [JStr ''about:blank''])] \<rparr>"
  have g: "command ''get'' [JStr ''about:blank''] s = (Resolved v, ?s0)"
    using r by (simp add: command_def)
  have "isSafariOnMac ?s0" using assms by (simp add: isSafariOnMac_def capability_def)
  from safari_batches [OF this] g
  show "discovery s =
              (Resolved (),
               s\<lparr> capabilities := applyWrites (safariFeatures @ safariDefects) (capabilities s),
                  replies := rest,
                  commands := commands s @ [(''get'', [JStr ''about:blank''])],
                  events := events s @ map (\<lambda>w. Written (fst w) (snd w)) (safariFeatures @ safariDefects) \<rparr>)"
    by (subst discovery_chain, subst thenDo_run) simp
next
  have c: "set (commands (snd (cleanup t))) \<subseteq> set (commands t) \<union> {(''get'', [JStr ''about:blank''])}" for t
    by (auto simp: cleanup_run split: list.splits)
  have d: "set (commands (snd (discovery s))) \<subseteq> set (commands s) \<union> {(''get'', [JStr ''about:blank''])}"
  proof (cases "replies s")
    case Nil
    then show ?thesis by (simp add: discovery_chain thenDo_run command_def)
  next
    case (Cons reply rest)
    show ?thesis
    proof (cases reply)
      case (Resolved v)
      let ?s0 = "s\<lparr> replies := rest, commands := commands s @ [(''get'', [JStr ''about:blank''])] \<rparr>"
      have g: "command ''get'' [JStr ''about:blank''] s = (Resolved v, ?s0)"
        using Cons Resolved by (simp add: command_def)
      have "isSafariOnMac ?s0" using assms by (simp add: isSafariOnMac_def capability_def)
      from safari_batches [OF this] g show ?thesis
        by (subst discovery_chain, subst thenDo_run) auto
    next
      case (Rejected e)
      with Cons show ?thesis by (auto simp: discovery_chain thenDo_run command_def)
    next
      case Pending
      with Cons show ?thesis by (auto simp: discovery_chain thenDo_run command_def)
    qed
  qed
  obtain rd sd where ds: "discovery s = (rd, sd)" by (cases "discovery s")
  show "set (commands (snd (fixSessionCapabilities s)))
            \<subseteq> set (commands s) \<union> {(''get'', [JStr ''about:blank''])}"
  proof (cases rd)
    case Pending
    with ds d show ?thesis by (simp add: fixSessionCapabilities_def always_run)
  next
    case (Resolved u)
    with ds have "fixSessionCapabilities s = cleanup sd"
      by (simp add: fixSessionCapabilities_def always_run)
    with c [of sd] d ds show ?thesis by auto
  next
    case (Rejected e)
    with ds have "fixSessionCapabilities s = cleanup sd"
      by (simp add: fixSessionCapabilities_def always_run)
    with c [of sd] d ds show ?thesis by auto
  qed
qed


theorem safari_on_mac_is_not_probed_witness:
  "isSafariOnMac (sessionWith safariOnMac [okReply, okReply]) \<and>
   discovery (sessionWith safariOnMac [okReply, okReply]) =
     (Resolved (),
      (sessionWith safariOnMac [okReply])
        \<lparr> capabilities := applyWrites (safariFeatures @ safariDefects) safariOnMac,
          commands := [(''get'', [JStr ''about:blank''])],
          events := map (\<lambda>w. Written (fst w) (snd w)) (safariFeatures @ safariDefects) \<rparr>) \<and>
   set (commands (snd (fixSessionCapabilities (sessionWith safariOnMac [okReply, okReply]))))
     \<subseteq> {(''get'', [JStr ''about:blank''])}"
proof -
  have s: "isSafariOnMac (sessionWith safariOnMac [okReply, okReply])"
    by (simp add: isSafariOnMac_def capability_def sessionWith_def safariOnMac_def)
  from safari_on_mac_is_not_probed [OF s] s show ?thesis
    by (simp add: sessionWith_def okReply_def)
qed

end
